theory Spec2Isabelle
  imports Complex_Main
begin

section \<open>csv-to-biiif: strings, paths and numbers of the host language\<close>

text \<open>
  The program is \<^verbatim>\<open>src/csv-to-biiif.ts\<close>. A string is a list of characters with
  codes 0 to 255, read as the program's code units of that range (Latin-1); text with
  other code units is outside the model.
\<close>

subsection \<open>String methods\<close>

definition is_digit :: "char \<Rightarrow> bool" where
  "is_digit c = (48 \<le> (of_char c :: nat) \<and> (of_char c :: nat) \<le> 57)"

definition digit_val :: "char \<Rightarrow> int" where
  "digit_val c = int (of_char c) - 48"

text \<open>
  The characters that \<^verbatim>\<open>toLowerCase\<close> changes: \<^verbatim>\<open>A\<close> to \<^verbatim>\<open>Z\<close> and the upper-case
  letters of Latin-1 (codes 192 to 222 but for the multiplication sign 215); each
  becomes the character 32 places on.
\<close>

definition is_upper :: "char \<Rightarrow> bool" where
  "is_upper c =
     ((65 \<le> (of_char c :: nat) \<and> (of_char c :: nat) \<le> 90)
      \<or> (192 \<le> (of_char c :: nat) \<and> (of_char c :: nat) \<le> 222 \<and> (of_char c :: nat) \<noteq> 215))"

definition lower_char :: "char \<Rightarrow> char" where
  "lower_char c = (if is_upper c then char_of ((of_char c :: nat) + 32) else c)"

text \<open>\<^verbatim>\<open>s.toLowerCase()\<close>\<close>

definition toLowerCase :: "string \<Rightarrow> string" where
  "toLowerCase s = map lower_char s"

text \<open>\<^verbatim>\<open>s.startsWith(p)\<close>\<close>

definition startsWith :: "string \<Rightarrow> string \<Rightarrow> bool" where
  "startsWith s p = (take (length p) s = p)"

text \<open>\<^verbatim>\<open>s.includes(p)\<close>: \<open>p\<close> occurs at some position of \<open>s\<close>.\<close>

fun includes_str :: "string \<Rightarrow> string \<Rightarrow> bool" where
  "includes_str [] p = (p = [])"
| "includes_str (c # cs) p = (startsWith (c # cs) p \<or> includes_str cs p)"

text \<open>\<^verbatim>\<open>s.split(sep)\<close> for a one-character separator: never the empty list.\<close>

fun split_str :: "char \<Rightarrow> string \<Rightarrow> string list" where
  "split_str sep [] = [[]]"
| "split_str sep (c # cs) =
     (if c = sep then [] # split_str sep cs
      else (case split_str sep cs of
              [] \<Rightarrow> [[c]]
            | p # ps \<Rightarrow> (c # p) # ps))"

subsection \<open>parseInt\<close>

text \<open>
  \<^verbatim>\<open>parseInt(s)\<close> with no radix: leading white space is skipped, one sign is read, a
  \<^verbatim>\<open>0x\<close>/\<^verbatim>\<open>0X\<close> prefix selects radix 16, and the longest run of digits of the radix is
  the number; with no such digit the result is \<^verbatim>\<open>NaN\<close>, which is \<open>None\<close> here.

  The result here is the mathematical integer that is read. The program's result is
  the double nearest to that integer, which is the integer itself whenever the integer
  is a double, and so whenever its magnitude is at most \<open>2 ^ 53\<close>; beyond that two
  different integers can give the same double, and a very long run gives an infinity.
  What is proved about an index that is read by \<^verbatim>\<open>parseInt\<close> is therefore stated for
  magnitudes below \<open>2 ^ 53\<close>, where the two agree.

  White space (of \<^verbatim>\<open>parseInt\<close> and of \<^verbatim>\<open>trim\<close>) within the code units of the model:
  tab, line feed, vertical tab, form feed, carriage return, space and the
  no-break space (code 160).
\<close>

definition is_space :: "char \<Rightarrow> bool" where
  "is_space c = ((of_char c :: nat) \<in> {9, 10, 11, 12, 13, 32, 160})"

definition is_hex_digit :: "char \<Rightarrow> bool" where
  "is_hex_digit c =
     (is_digit c \<or> (97 \<le> (of_char c :: nat) \<and> (of_char c :: nat) \<le> 102)
                \<or> (65 \<le> (of_char c :: nat) \<and> (of_char c :: nat) \<le> 70))"

definition hex_val :: "char \<Rightarrow> int" where
  "hex_val c =
     (if is_digit c then digit_val c
      else if 97 \<le> (of_char c :: nat) then int (of_char c) - 87
      else int (of_char c) - 55)"

definition dec_value :: "string \<Rightarrow> int" where
  "dec_value ds = foldl (\<lambda>acc c. 10 * acc + digit_val c) 0 ds"

definition hex_value :: "string \<Rightarrow> int" where
  "hex_value ds = foldl (\<lambda>acc c. 16 * acc + hex_val c) 0 ds"

definition parseInt :: "string \<Rightarrow> int option" where
  "parseInt s =
     (let s1 = dropWhile is_space s;
          sign = (if startsWith s1 ''-'' then - 1 else 1 :: int);
          s2 = (if startsWith s1 ''-'' \<or> startsWith s1 ''+'' then drop 1 s1 else s1)
      in if startsWith s2 ''0x'' \<or> startsWith s2 ''0X''
         then (let z = takeWhile is_hex_digit (drop 2 s2)
               in if z = [] then None else Some (sign * hex_value z))
         else (let z = takeWhile is_digit s2
               in if z = [] then None else Some (sign * dec_value z)))"

text \<open>
  \<^verbatim>\<open>a === b\<close> on two numbers: \<^verbatim>\<open>NaN\<close> equals nothing, itself included. (On the
  integers read by \<^verbatim>\<open>parseInt\<close> this is the program's comparison when one side is
  below \<open>2 ^ 53\<close> in magnitude: a double below that bound is the double of no other
  integer.)
\<close>

definition strict_eq :: "int option \<Rightarrow> int option \<Rightarrow> bool" where
  "strict_eq a b = (case (a, b) of (Some x, Some y) \<Rightarrow> x = y | _ \<Rightarrow> False)"

subsection \<open>path.basename and path.extname (POSIX)\<close>

text \<open>
  Both work on the last component of the path: trailing slashes are dropped, then
  everything up to the last remaining slash.
\<close>

definition basename :: "string \<Rightarrow> string" where
  "basename p =
     rev (takeWhile (\<lambda>c. c \<noteq> CHR ''/'') (dropWhile (\<lambda>c. c = CHR ''/'') (rev p)))"

text \<open>
  \<^verbatim>\<open>extname\<close>: from the last dot of the last component to its end; empty when there is
  no dot, when the only dot is the component's first character, or when the component
  is \<^verbatim>\<open>..\<close>.
\<close>

definition extname :: "string \<Rightarrow> string" where
  "extname p =
     (let b = basename p;
          suf = rev (takeWhile (\<lambda>c. c \<noteq> CHR ''.'') (rev b))
      in if CHR ''.'' \<notin> set b then []
         else if length b = Suc (length suf) then []
         else if b = ''..'' then []
         else CHR ''.'' # suf)"

subsection \<open>Regular expressions of the matcher\<close>

text \<open>
  \<^verbatim>\<open>s.match(re)\<close> for an expression with no start anchor tries every start position
  from the left and returns the first that matches; \<open>m\<close> is the match of the
  expression at the start of its argument, and the result is capture group 1.
\<close>

fun regex_search :: "(string \<Rightarrow> string option) \<Rightarrow> string \<Rightarrow> string option" where
  "regex_search m [] = m []"
| "regex_search m (c # cs) =
     (case m (c # cs) of Some g \<Rightarrow> Some g | None \<Rightarrow> regex_search m cs)"

text \<open>
  \<^verbatim>\<open>/part(\d+)(?:-\d+)?\.mp3$/\<close> at one position. The digit runs are greedy and are
  followed by a non-digit in the expression, and the optional group starts with a
  dash where the alternative wants a dot, so no backtracking changes the outcome.
\<close>

definition audio_match_at :: "string \<Rightarrow> string option" where
  "audio_match_at s =
     (if \<not> startsWith s ''part'' then None
      else (let r = drop 4 s;
                ds = takeWhile is_digit r;
                rest = dropWhile is_digit r
            in if ds = [] then None
               else (let rest' =
                       (if startsWith rest ''-'' \<and> takeWhile is_digit (drop 1 rest) \<noteq> []
                        then dropWhile is_digit (drop 1 rest) else rest)
                     in if rest' = ''.mp3'' then Some ds else None)))"

text \<open>\<^verbatim>\<open>/_(\d+)\.[^.]+$/\<close> at one position.\<close>

definition image_match_at :: "string \<Rightarrow> string option" where
  "image_match_at s =
     (if \<not> startsWith s ''_'' then None
      else (let r = drop 1 s;
                ds = takeWhile is_digit r;
                rest = dropWhile is_digit r
            in if ds = [] then None
               else if startsWith rest ''.'' \<and> drop 1 rest \<noteq> []
                       \<and> CHR ''.'' \<notin> set (drop 1 rest)
               then Some ds else None))"

text \<open>
  \<^verbatim>\<open>s.replace(/[_canvas]+/, '')\<close>: the first maximal run of characters out of
  \<^verbatim>\<open>_ c a n v s\<close> is removed (the expression is not global); a string with no such
  character is returned as it is.
\<close>

definition in_canvas_class :: "char \<Rightarrow> bool" where
  "in_canvas_class c = (c \<in> set ''_canvas'')"

definition replace_canvas_run :: "string \<Rightarrow> string" where
  "replace_canvas_run s =
     takeWhile (\<lambda>c. \<not> in_canvas_class c) s
     @ dropWhile in_canvas_class (dropWhile (\<lambda>c. \<not> in_canvas_class c) s)"


section \<open>Data model\<close>

subsection \<open>Values of a row\<close>

text \<open>
  A number of the host language is \<^verbatim>\<open>NaN\<close> or a finite value (every finite double is
  a rational; the program only tests numbers for zero and carries them around, and
  no probe yields an infinity). The three technical fields of a row hold the text of
  the CSV cell, a number written by the metadata extractor, or \<^verbatim>\<open>undefined\<close>.
\<close>

datatype jsnum = NaN | Fin rat

datatype jsval = Undefined | Str string | Num jsnum

text \<open>Truthiness, as \<^verbatim>\<open>if (v)\<close> and \<^verbatim>\<open>!v\<close> test it.\<close>

fun truthy :: "jsval \<Rightarrow> bool" where
  "truthy Undefined = False"
| "truthy (Str s) = (s \<noteq> [])"
| "truthy (Num NaN) = False"
| "truthy (Num (Fin q)) = (q \<noteq> 0)"

definition truthy_str :: "string option \<Rightarrow> bool" where
  "truthy_str v = (case v of None \<Rightarrow> False | Some s \<Rightarrow> s \<noteq> [])"

text \<open>
  \<^verbatim>\<open>interface CSVRow\<close>. The index signature \<^verbatim>\<open>[key: string]: any\<close> is the list
  \<open>dynamic\<close>: the remaining columns of the CSV record, whose values are text, in
  the order in which \<^verbatim>\<open>Object.entries\<close> lists them.
\<close>

record CSVRow =
  hierarchy :: string
  label :: string
  description :: "string option"
  attribution :: "string option"
  behavior :: "string option"
  width :: jsval
  height :: jsval
  duration :: jsval
  viewingHint :: "string option"
  viewingDirection :: "string option"
  navDate :: "string option"
  dynamic :: "(string \<times> string) list"

text \<open>\<^verbatim>\<open>record[key]\<close> for a key of the index signature.\<close>

definition field :: "CSVRow \<Rightarrow> string \<Rightarrow> string option" where
  "field r k = map_of (dynamic r) k"

subsection \<open>The metadata document\<close>

text \<open>
  The object \<^verbatim>\<open>info\<close> handed to the YAML codec: keys in insertion order. An
  assignment to a key that is already there replaces its value in place. The keys of
  \<^verbatim>\<open>info\<close> are fixed names, none of them an array index or \<^verbatim>\<open>__proto__\<close>, so
  \<open>obj_set\<close> is the assignment \<^verbatim>\<open>info[k] = v\<close>.
\<close>

datatype yval =
    YStr string
  | YSeq "string list"
  | YInt "int option"
  | YNum jsnum
  | YMap "(string \<times> string) list"

type_synonym info = "(string \<times> yval) list"

fun obj_set :: "string \<Rightarrow> 'v \<Rightarrow> (string \<times> 'v) list \<Rightarrow> (string \<times> 'v) list" where
  "obj_set k v [] = [(k, v)]"
| "obj_set k v (e # es) = (if fst e = k then (k, v) # es else e # obj_set k v es)"

text \<open>
  The assignment \<^verbatim>\<open>o[k] = v\<close> of a text \<open>v\<close> to an arbitrary key of a plain object, as
  the metadata bag needs it: the key \<^verbatim>\<open>__proto__\<close> is the inherited accessor, which
  ignores a value that is not an object, so nothing is added; a key that is an array
  index (a decimal numeral with no leading zero, at most \<open>2 ^ 32 - 2\<close>) is listed
  before all other keys, in ascending order; any other new key comes last.
\<close>

definition is_array_index :: "string \<Rightarrow> bool" where
  "is_array_index k =
     (k = ''0'' \<or> (k \<noteq> [] \<and> list_all is_digit k \<and> hd k \<noteq> CHR ''0''
                  \<and> dec_value k \<le> 4294967294))"

fun insert_index :: "string \<Rightarrow> 'v \<Rightarrow> (string \<times> 'v) list \<Rightarrow> (string \<times> 'v) list" where
  "insert_index k v [] = [(k, v)]"
| "insert_index k v (e # es) =
     (if is_array_index (fst e) \<and> dec_value (fst e) < dec_value k
      then e # insert_index k v es else (k, v) # e # es)"

definition prop_set :: "string \<Rightarrow> 'v \<Rightarrow> (string \<times> 'v) list \<Rightarrow> (string \<times> 'v) list" where
  "prop_set k v obj =
     (if k = ''__proto__'' then obj
      else if k \<in> fst ` set obj then obj_set k v obj
      else if is_array_index k then insert_index k v obj
      else obj @ [(k, v)])"

text \<open>\<^verbatim>\<open>if (c) o[k] = v\<close>\<close>

definition set_if :: "bool \<Rightarrow> string \<Rightarrow> 'v \<Rightarrow> (string \<times> 'v) list \<Rightarrow> (string \<times> 'v) list" where
  "set_if c k v obj = (if c then obj_set k v obj else obj)"

subsection \<open>The host: probes and floating-point codecs\<close>

text \<open>
  The image probe (\<^verbatim>\<open>sharp(path).metadata()\<close>) and the media probe (\<^verbatim>\<open>ffprobe\<close>)
  are capabilities of the environment; \<open>None\<close> is a probe that throws. The media
  probe's result is the list of its streams, each given by \<^verbatim>\<open>Number(stream.duration)\<close>;
  a result with no stream list is the empty list. The text of a number that is not
  an integer below \<open>10 ^ 21\<close> and \<^verbatim>\<open>parseFloat\<close> are floating-point codecs of the
  language and are parameters as well.
\<close>

record sharp_metadata =
  meta_width :: "jsnum option"
  meta_height :: "jsnum option"

record host =
  sharp :: "string \<Rightarrow> sharp_metadata option"
  ffprobe :: "string \<Rightarrow> jsnum list option"
  frac_text :: "rat \<Rightarrow> string"
  parseFloat :: "string \<Rightarrow> jsnum"

fun digits_of :: "nat \<Rightarrow> string" where
  "digits_of n =
     (if n < 10 then [char_of (48 + n)]
      else digits_of (n div 10) @ [char_of (48 + n mod 10)])"

definition int_text :: "int \<Rightarrow> string" where
  "int_text k = (if k < 0 then CHR ''-'' # digits_of (nat (- k)) else digits_of (nat k))"

text \<open>\<^verbatim>\<open>n.toString()\<close> for a number.\<close>

definition num_text :: "host \<Rightarrow> jsnum \<Rightarrow> string" where
  "num_text h n =
     (case n of
        NaN \<Rightarrow> ''NaN''
      | Fin q \<Rightarrow>
          if of_int \<lfloor>q\<rfloor> = q \<and> \<bar>q\<bar> < 10 ^ 21 then int_text \<lfloor>q\<rfloor> else frac_text h q)"

text \<open>
  \<^verbatim>\<open>v.toString()\<close> for the value of a technical field. The program calls it on
  truthy values only, so the last equation is never used.
\<close>

fun toString :: "host \<Rightarrow> jsval \<Rightarrow> string" where
  "toString h (Str s) = s"
| "toString h (Num n) = num_text h n"
| "toString h Undefined = []"

subsection \<open>Effects\<close>

text \<open>
  A path is the list of the arguments given to \<^verbatim>\<open>path.join\<close>, in order. The effects of
  processing a row are the events it causes, in order:
  \<^item> \<open>WarnCanvasNesting lastPart parentPart\<close> is
    \<^verbatim>\<open>warn("Warning: Canvas <lastPart> must be inside a manifest. Current parent: <parentPart>")\<close>;
  \<^item> \<open>WarnManifestNesting lastPart parentPart\<close> is
    \<^verbatim>\<open>warn("Warning: Manifest <lastPart> cannot be inside another manifest. Current parent: <parentPart>")\<close>;
  \<^item> \<open>WarnImageProbe\<close> and \<open>WarnMediaProbe\<close> are the warnings of a probe that throws;
  \<^item> \<open>WarnNoMatch\<close> is the \<^verbatim>\<open>console.warn\<close> for a canvas with no matching file;
  \<^item> \<open>Mkdir\<close>, \<open>CopyFile\<close> and \<open>WriteFile\<close> are \<^verbatim>\<open>mkdirSync\<close> (recursive),
    \<^verbatim>\<open>copyFileSync\<close> and \<^verbatim>\<open>writeFileSync\<close>, which are taken to succeed.
  \<^verbatim>\<open>console.log\<close> lines are left out. The sidecar is written with the document
  itself, its serialisation being the YAML codec's.
\<close>

type_synonym path = "string list"

datatype event =
    WarnCanvasNesting string string
  | WarnManifestNesting string string
  | WarnImageProbe string
  | WarnMediaProbe string
  | WarnNoMatch string
  | Mkdir path
  | CopyFile string path
  | WriteFile path info


section \<open>The program\<close>

subsection \<open>addFileMetadata\<close>

definition of_probe :: "jsnum option \<Rightarrow> jsval" where
  "of_probe v = (case v of None \<Rightarrow> Undefined | Some n \<Rightarrow> Num n)"

definition image_exts :: "string list" where
  "image_exts = [''.jpg'', ''.jpeg'', ''.png'', ''.tiff'', ''.tif'']"

definition media_exts :: "string list" where
  "media_exts = [''.mp3'', ''.mp4'', ''.wav'', ''.m4a'']"

text \<open>The row is mutated in place; the model returns the new row and the warnings.\<close>

definition addFileMetadata :: "host \<Rightarrow> string \<Rightarrow> CSVRow \<Rightarrow> CSVRow \<times> event list" where
  "addFileMetadata h filePath record =
     (let ext = toLowerCase (extname filePath)
      in if ext \<in> set image_exts then
           (case sharp h filePath of
              None \<Rightarrow> (record, [WarnImageProbe filePath])
            | Some metadata \<Rightarrow>
                (let r1 = (if \<not> truthy (width record)
                           then record\<lparr>width := of_probe (meta_width metadata)\<rparr> else record);
                     r2 = (if \<not> truthy (height r1)
                           then r1\<lparr>height := of_probe (meta_height metadata)\<rparr> else r1)
                 in (r2, [])))
         else if ext \<in> set media_exts then
           (case ffprobe h filePath of
              None \<Rightarrow> (record, [WarnMediaProbe filePath])
            | Some streams \<Rightarrow>
                (case streams of
                   [] \<Rightarrow> (record, [])
                 | d # _ \<Rightarrow>
                     (if \<not> truthy (duration record)
                      then record\<lparr>duration := Num d\<rparr> else record, [])))
         else (record, []))"

subsection \<open>createInfoYml\<close>

text \<open>\<^verbatim>\<open>s.trim()\<close>\<close>

definition trim :: "string \<Rightarrow> string" where
  "trim s = rev (dropWhile is_space (rev (dropWhile is_space s)))"

definition text_of :: "string option \<Rightarrow> string" where
  "text_of v = (case v of None \<Rightarrow> [] | Some s \<Rightarrow> s)"

text \<open>
  The loop over \<^verbatim>\<open>Object.entries(record)\<close> that fills the metadata bag. Only keys of
  the index signature can start with \<^verbatim>\<open>metadata.\<close>, and \<^verbatim>\<open>key.replace('metadata.', '')\<close>
  removes that prefix. The bag is kept in the order in which the host lists its keys.
\<close>

fun metadata_bag :: "(string \<times> string) list \<Rightarrow> (string \<times> string) list \<Rightarrow> (string \<times> string) list" where
  "metadata_bag [] metadata = metadata"
| "metadata_bag ((key, val) # entries) metadata =
     metadata_bag entries
       (if startsWith key ''metadata.'' \<and> val \<noteq> []
        then prop_set (drop (length ''metadata.'') key) val metadata else metadata)"

text \<open>The three-key object of a compound group.\<close>

definition group3 :: "CSVRow \<Rightarrow> string \<Rightarrow> string \<Rightarrow> string \<Rightarrow> string \<Rightarrow> yval" where
  "group3 r g a b c =
     YMap [(a, text_of (field r (g @ ''.'' @ a))),
           (b, text_of (field r (g @ ''.'' @ b))),
           (c, text_of (field r (g @ ''.'' @ c)))]"

definition createInfoYml :: "host \<Rightarrow> CSVRow \<Rightarrow> info" where
  "createInfoYml h record =
     (let info = [];
          info = set_if (label record \<noteq> []) ''label'' (YStr (label record)) info;
          info = set_if (truthy_str (description record)) ''description''
                   (YStr (text_of (description record))) info;
          info = set_if (truthy_str (attribution record)) ''attribution''
                   (YStr (text_of (attribution record))) info;
          info = set_if (truthy_str (behavior record)) ''behavior''
                   (if includes_str (text_of (behavior record)) '',''
                    then YSeq (map trim (split_str CHR '','' (text_of (behavior record))))
                    else YStr (text_of (behavior record))) info;
          info = set_if (truthy (width record)) ''width''
                   (YInt (parseInt (toString h (width record)))) info;
          info = set_if (truthy (height record)) ''height''
                   (YInt (parseInt (toString h (height record)))) info;
          info = set_if (truthy (duration record)) ''duration''
                   (YNum (parseFloat h (toString h (duration record)))) info;
          info = set_if (truthy_str (viewingHint record)) ''viewingHint''
                   (YStr (text_of (viewingHint record))) info;
          info = set_if (truthy_str (viewingDirection record)) ''viewingDirection''
                   (YStr (text_of (viewingDirection record))) info;
          info = set_if (truthy_str (navDate record)) ''navDate''
                   (YStr (text_of (navDate record))) info;
          metadata = metadata_bag (dynamic record) [];
          info = set_if (metadata \<noteq> []) ''metadata'' (YMap metadata) info;
          info = set_if (truthy_str (field record ''requiredStatement.label'')
                         \<and> truthy_str (field record ''requiredStatement.value''))
                   ''requiredStatement''
                   (YMap [(''label'', text_of (field record ''requiredStatement.label'')),
                          (''value'', text_of (field record ''requiredStatement.value''))]) info;
          info = set_if (truthy_str (field record ''summary'')) ''summary''
                   (YStr (text_of (field record ''summary''))) info;
          info = set_if (truthy_str (field record ''provider.id'')
                         \<and> truthy_str (field record ''provider.type'')
                         \<and> truthy_str (field record ''provider.label''))
                   ''provider'' (group3 record ''provider'' ''id'' ''type'' ''label'') info;
          info = set_if (truthy_str (field record ''homepage.id'')
                         \<and> truthy_str (field record ''homepage.type'')
                         \<and> truthy_str (field record ''homepage.label''))
                   ''homepage'' (group3 record ''homepage'' ''id'' ''type'' ''label'') info;
          info = set_if (truthy_str (field record ''seeAlso.id'')
                         \<and> truthy_str (field record ''seeAlso.type'')
                         \<and> truthy_str (field record ''seeAlso.label''))
                   ''seeAlso'' (group3 record ''seeAlso'' ''id'' ''type'' ''label'') info;
          info = set_if (truthy_str (field record ''rendering.id'')
                         \<and> truthy_str (field record ''rendering.type'')
                         \<and> truthy_str (field record ''rendering.label''))
                   ''rendering'' (group3 record ''rendering'' ''id'' ''type'' ''label'') info;
          info = set_if (truthy_str (field record ''start.id'')
                         \<and> truthy_str (field record ''start.type'')
                         \<and> truthy_str (field record ''start.label''))
                   ''start'' (group3 record ''start'' ''id'' ''type'' ''label'') info;
          info = set_if (truthy_str (field record ''supplementary.id'')
                         \<and> truthy_str (field record ''supplementary.type'')
                         \<and> truthy_str (field record ''supplementary.label''))
                   ''supplementary''
                   (group3 record ''supplementary'' ''id'' ''type'' ''label'') info;
          info = set_if (truthy_str (field record ''services.id'')
                         \<and> truthy_str (field record ''services.type'')
                         \<and> truthy_str (field record ''services.profile''))
                   ''services'' (group3 record ''services'' ''id'' ''type'' ''profile'') info
      in info)"

subsection \<open>The asset matcher\<close>

text \<open>The predicate of \<^verbatim>\<open>files.filter(...)\<close> in \<^verbatim>\<open>processRecord\<close>.\<close>

definition file_matches :: "bool \<Rightarrow> int option \<Rightarrow> string \<Rightarrow> bool" where
  "file_matches isAudio canvasIndex file =
     (let ext = toLowerCase (extname file);
          fileName = basename file
      in if isAudio then
           (if ext = ''.mp3'' then
              (case regex_search audio_match_at (toLowerCase fileName) of
                 Some g \<Rightarrow> strict_eq (parseInt g) canvasIndex
               | None \<Rightarrow> False)
            else False)
         else
           (if ext \<in> set [''.jpg'', ''.jpeg''] then
              (case regex_search image_match_at (toLowerCase fileName) of
                 Some g \<Rightarrow> strict_eq (parseInt g) canvasIndex
               | None \<Rightarrow> False)
            else False))"

text \<open>
  \<^verbatim>\<open>Array.from(fileMap.values()).flat()\<close>: the asset index is a map from a directory
  to its files, kept in insertion order.
\<close>

type_synonym fileMap = "(string \<times> string list) list"

definition all_files :: "fileMap \<Rightarrow> string list" where
  "all_files fm = concat (map snd fm)"

text \<open>The loop that copies every matching file and extracts its metadata.\<close>

fun copy_matching :: "host \<Rightarrow> path \<Rightarrow> string list \<Rightarrow> CSVRow \<Rightarrow> CSVRow \<times> event list" where
  "copy_matching h fullPath [] record = (record, [])"
| "copy_matching h fullPath (file # files) record =
     (let fileName = basename file;
          destPath = fullPath @ [fileName];
          (r1, ev1) = addFileMetadata h file record;
          (r2, ev2) = copy_matching h fullPath files r1
      in (r2, CopyFile file destPath # ev1 @ ev2))"

subsection \<open>processRecord\<close>

text \<open>The parts of \<^verbatim>\<open>processRecord\<close>, named as its local constants are.\<close>

definition parts0 :: "CSVRow \<Rightarrow> string list" where
  "parts0 record = split_str CHR ''/'' (hierarchy record)"

definition lastPart :: "CSVRow \<Rightarrow> string" where
  "lastPart record = parts0 record ! (length (parts0 record) - 1)"

definition isCanvas :: "CSVRow \<Rightarrow> bool" where
  "isCanvas record = startsWith (lastPart record) ''canvas''"

definition isManifest :: "CSVRow \<Rightarrow> bool" where
  "isManifest record = includes_str (lastPart record) ''manifest''"

text \<open>\<^verbatim>\<open>parts\<close> after the canvas segment has been prefixed with an underscore.\<close>

definition parts :: "CSVRow \<Rightarrow> string list" where
  "parts record =
     (if isCanvas record
      then (parts0 record)[length (parts0 record) - 1 := CHR ''_'' # lastPart record]
      else parts0 record)"

definition parentPart :: "CSVRow \<Rightarrow> string option" where
  "parentPart record =
     (if length (parts record) > 1
      then Some (parts record ! (length (parts record) - 2)) else None)"

definition nesting_warnings :: "CSVRow \<Rightarrow> event list" where
  "nesting_warnings record =
     (if isCanvas record \<and> truthy_str (parentPart record)
         \<and> \<not> includes_str (text_of (parentPart record)) ''manifest''
      then [WarnCanvasNesting (lastPart record) (text_of (parentPart record))] else [])
     @ (if isManifest record \<and> truthy_str (parentPart record)
           \<and> includes_str (text_of (parentPart record)) ''manifest''
        then [WarnManifestNesting (lastPart record) (text_of (parentPart record))] else [])"

definition fullPath :: "string \<Rightarrow> CSVRow \<Rightarrow> path" where
  "fullPath outputDir record = outputDir # parts record"

definition canvasIndex :: "CSVRow \<Rightarrow> int option" where
  "canvasIndex record =
     parseInt (replace_canvas_run (parts record ! (length (parts record) - 1)))"

definition isAudio :: "CSVRow \<Rightarrow> bool" where
  "isAudio record =
     (length (parts record) \<ge> 2 \<and> parts record ! (length (parts record) - 2) = ''audio'')"

definition matchingFiles :: "CSVRow \<Rightarrow> fileMap \<Rightarrow> string list" where
  "matchingFiles record fm =
     filter (file_matches (isAudio record) (canvasIndex record)) (all_files fm)"

definition processRecord ::
  "host \<Rightarrow> CSVRow \<Rightarrow> string \<Rightarrow> string option \<Rightarrow> fileMap option \<Rightarrow> CSVRow \<times> event list" where
  "processRecord h record outputDir inputDir fileMap =
     (let ev_nest = nesting_warnings record;
          ev_mkdir = [Mkdir (fullPath outputDir record)];
          (record', ev_match) =
            (case fileMap of
               Some fm \<Rightarrow>
                 if truthy_str inputDir \<and> isCanvas record then
                   (let (r, ev) = copy_matching h (fullPath outputDir record)
                                    (matchingFiles record fm) record
                    in (r, ev @ (if matchingFiles record fm = []
                                 then [WarnNoMatch (parts record ! (length (parts record) - 1))]
                                 else [])))
                 else (record, [])
             | None \<Rightarrow> (record, []));
          infoContent = createInfoYml h record';
          infoPath = fullPath outputDir record @ [''info.yml'']
      in (record', ev_nest @ ev_mkdir @ ev_match @ [WriteFile infoPath infoContent]))"


section \<open>Observations on the effects, and inputs for examples\<close>

fun is_nesting_warning :: "event \<Rightarrow> bool" where
  "is_nesting_warning (WarnCanvasNesting _ _) = True"
| "is_nesting_warning (WarnManifestNesting _ _) = True"
| "is_nesting_warning _ = False"

fun is_manifest_warning :: "event \<Rightarrow> bool" where
  "is_manifest_warning (WarnManifestNesting _ _) = True"
| "is_manifest_warning _ = False"

text \<open>The directories created and the files written, in order.\<close>

fun created_dirs :: "event list \<Rightarrow> path list" where
  "created_dirs [] = []"
| "created_dirs (Mkdir d # es) = d # created_dirs es"
| "created_dirs (_ # es) = created_dirs es"

fun written_files :: "event list \<Rightarrow> (path \<times> info) list" where
  "written_files [] = []"
| "written_files (WriteFile p c # es) = (p, c) # written_files es"
| "written_files (_ # es) = written_files es"

text \<open>The files copied into the canvas directory, in order.\<close>

fun copied_files :: "event list \<Rightarrow> string list" where
  "copied_files [] = []"
| "copied_files (CopyFile f _ # es) = f # copied_files es"
| "copied_files (_ # es) = copied_files es"

text \<open>\<^verbatim>\<open>info[k]\<close> of a document.\<close>

definition info_get :: "info \<Rightarrow> string \<Rightarrow> yval option" where
  "info_get doc k = map_of doc k"

text \<open>
  The index as the specification words it: the integer formed by the digits of the
  terminal segment, undefined when it has none.
\<close>

definition spec_canvas_index :: "string \<Rightarrow> int option" where
  "spec_canvas_index seg =
     (if filter is_digit seg = [] then None else Some (dec_value (filter is_digit seg)))"

text \<open>
  Inputs for examples: a row with nothing but its hierarchy, and a host whose probes
  give the same answer for every file and whose floating-point codecs know the one
  number 12.5.
\<close>

definition plain_row :: "string \<Rightarrow> CSVRow" where
  "plain_row hier =
     \<lparr>hierarchy = hier, label = [], description = None, attribution = None,
      behavior = None, width = Undefined, height = Undefined, duration = Undefined,
      viewingHint = None, viewingDirection = None, navDate = None, dynamic = []\<rparr>"

definition fixed_host :: "sharp_metadata option \<Rightarrow> jsnum list option \<Rightarrow> host" where
  "fixed_host img media =
     \<lparr>sharp = (\<lambda>_. img), ffprobe = (\<lambda>_. media),
      frac_text = (\<lambda>_. ''12.5''), parseFloat = (\<lambda>_. Fin (25 / 2))\<rparr>"

text \<open>
  A host whose image probe reports 640 by 480 pixels and whose media probe reports one
  stream of 12.5 seconds.
\<close>

definition probing_host :: host where
  "probing_host =
     fixed_host (Some \<lparr>meta_width = Some (Fin 640), meta_height = Some (Fin 480)\<rparr>)
       (Some [Fin (25 / 2)])"

section \<open>Facts about the program\<close>

subsection \<open>Segments\<close>

lemma split_str_nonempty: "split_str sep s \<noteq> []"
  by (induction s) (auto split: list.splits)

lemma parts0_nonempty: "parts0 r \<noteq> []"
  by (simp add: parts0_def split_str_nonempty)

lemma lastPart_last: "lastPart r = last (split_str CHR ''/'' (hierarchy r))"
  using parts0_nonempty [of r] by (simp add: lastPart_def parts0_def last_conv_nth)

lemma parts_canvas:
  "isCanvas r \<Longrightarrow> parts r = butlast (parts0 r) @ [CHR ''_'' # lastPart r]"
proof -
  assume c: "isCanvas r"
  obtain xs x where e: "parts0 r = xs @ [x]"
    using parts0_nonempty [of r] by (metis append_butlast_last_id)
  show ?thesis using c by (simp add: parts_def e)
qed

lemma parts_plain:
  "\<not> isCanvas r \<Longrightarrow> parts r = butlast (parts0 r) @ [lastPart r]"
proof -
  assume n: "\<not> isCanvas r"
  have "lastPart r = last (parts0 r)"
    using parts0_nonempty [of r] by (simp add: lastPart_def last_conv_nth)
  then show ?thesis
    using n parts0_nonempty [of r] by (simp add: parts_def)
qed

subsection \<open>The events of a row\<close>

lemma addFileMetadata_events:
  "snd (addFileMetadata h f r) = [] \<or> snd (addFileMetadata h f r) = [WarnImageProbe f]
   \<or> snd (addFileMetadata h f r) = [WarnMediaProbe f]"
  by (auto simp: addFileMetadata_def Let_def split: if_splits option.splits list.splits)

lemma created_dirs_append: "created_dirs (xs @ ys) = created_dirs xs @ created_dirs ys"
  by (induction xs rule: created_dirs.induct) auto

lemma written_files_append: "written_files (xs @ ys) = written_files xs @ written_files ys"
  by (induction xs rule: written_files.induct) auto

lemma copy_matching_quiet:
  "filter is_nesting_warning (snd (copy_matching h p fs r)) = []
   \<and> created_dirs (snd (copy_matching h p fs r)) = []
   \<and> written_files (snd (copy_matching h p fs r)) = []"
proof (induction fs arbitrary: r)
  case Nil
  then show ?case by simp
next
  case (Cons f fs)
  show ?case
    using Cons [of "fst (addFileMetadata h f r)"] addFileMetadata_events [of h f r]
    by (auto simp: Let_def split_beta created_dirs_append written_files_append)
qed

lemma nesting_warnings_plain:
  "created_dirs (nesting_warnings r) = [] \<and> written_files (nesting_warnings r) = []"
  by (simp add: nesting_warnings_def)

lemma processRecord_events:
  "\<exists>ev. snd (processRecord h r out inp fm) =
         nesting_warnings r @ [Mkdir (fullPath out r)] @ ev
         @ [WriteFile (fullPath out r @ [''info.yml''])
              (createInfoYml h (fst (processRecord h r out inp fm)))]
       \<and> filter is_nesting_warning ev = [] \<and> created_dirs ev = [] \<and> written_files ev = []"
  using copy_matching_quiet [of h "fullPath out r" "matchingFiles r (the fm)" r]
  by (auto simp: processRecord_def Let_def split_beta split: option.splits)

lemma processRecord_created_dirs:
  "created_dirs (snd (processRecord h r out inp fm)) = [fullPath out r]"
  using processRecord_events [of h r out inp fm] nesting_warnings_plain [of r]
  by (auto simp: created_dirs_append)

lemma processRecord_written_files:
  "written_files (snd (processRecord h r out inp fm)) =
     [(fullPath out r @ [''info.yml''], createInfoYml h (fst (processRecord h r out inp fm)))]"
  using processRecord_events [of h r out inp fm] nesting_warnings_plain [of r]
  by (auto simp: written_files_append)

lemma processRecord_nesting:
  "filter is_nesting_warning (snd (processRecord h r out inp fm)) = nesting_warnings r"
proof -
  have "filter is_nesting_warning (nesting_warnings r) = nesting_warnings r"
    by (simp add: nesting_warnings_def)
  then show ?thesis
    using processRecord_events [of h r out inp fm] by auto
qed


lemma parentPart_parts0:
  "parentPart r = (if length (parts0 r) > 1 then Some (parts0 r ! (length (parts0 r) - 2)) else None)"
  by (auto simp: parentPart_def parts_def)

lemma nesting_warnings_emitted:
  "set (nesting_warnings r) \<subseteq> set (snd (processRecord h r out inp fm))"
  using processRecord_events [of h r out inp fm] by auto

subsection \<open>Claim C7\<close>

text \<open>
  C7. When the terminal segment of the hierarchy starts with \<^verbatim>\<open>canvas\<close>, the one
  directory that is created has the segments before it unchanged and, as its terminal
  segment, the original segment with the marker \<^verbatim>\<open>_\<close> in front; dropping that first
  character gives the original terminal segment back.
\<close>

theorem C7_canvas_marker_round_trip:
  assumes "startsWith (last (split_str CHR ''/'' (hierarchy r))) ''canvas''"
  shows "created_dirs (snd (processRecord h r out inp fm)) =
           [out # butlast (split_str CHR ''/'' (hierarchy r))
                @ [CHR ''_'' # last (split_str CHR ''/'' (hierarchy r))]]
         \<and> drop 1 (last (hd (created_dirs (snd (processRecord h r out inp fm)))))
             = last (split_str CHR ''/'' (hierarchy r))"
proof -
  have c: "isCanvas r" using assms by (simp add: isCanvas_def lastPart_last)
  have "fullPath out r = out # butlast (split_str CHR ''/'' (hierarchy r))
                @ [CHR ''_'' # last (split_str CHR ''/'' (hierarchy r))]"
    using parts_canvas [OF c] by (simp add: fullPath_def lastPart_last parts0_def)
  then show ?thesis by (simp add: processRecord_created_dirs)
qed

theorem C7_witness:
  "startsWith (last (split_str CHR ''/'' (hierarchy (plain_row ''root/photos/manifest1/canvas1'')))) ''canvas''
   \<and> created_dirs (snd (processRecord (fixed_host None None)
         (plain_row ''root/photos/manifest1/canvas1'') ''out'' None None))
       = [[''out'', ''root'', ''photos'', ''manifest1'', ''_canvas1'']]"
proof -
  have a: "startsWith (last (split_str CHR ''/'' (hierarchy (plain_row ''root/photos/manifest1/canvas1'')))) ''canvas''"
    by (simp add: plain_row_def startsWith_def)
  show ?thesis
    using a C7_canvas_marker_round_trip [OF a, of "fixed_host None None" "''out''" None None]
    by (simp add: plain_row_def)
qed

subsection \<open>Claim C10\<close>

text \<open>
  C10. A row whose hierarchy is a single segment causes no nesting warning, whatever
  the segment is, a canvas segment included.
\<close>

theorem C10_single_segment_no_nesting_warning:
  assumes "length (split_str CHR ''/'' (hierarchy r)) = 1"
  shows "filter is_nesting_warning (snd (processRecord h r out inp fm)) = []"
proof -
  have "parentPart r = None" using assms by (simp add: parentPart_parts0 parts0_def)
  then have "nesting_warnings r = []" by (simp add: nesting_warnings_def truthy_str_def)
  then show ?thesis by (simp add: processRecord_nesting)
qed

theorem C10_witness:
  "length (split_str CHR ''/'' (hierarchy (plain_row ''canvas1''))) = 1
   \<and> isCanvas (plain_row ''canvas1'')
   \<and> filter is_nesting_warning
       (snd (processRecord (fixed_host None None) (plain_row ''canvas1'') ''out'' None None)) = []"
proof -
  have a: "length (split_str CHR ''/'' (hierarchy (plain_row ''canvas1''))) = 1"
    by (simp add: plain_row_def)
  have b: "isCanvas (plain_row ''canvas1'')"
    by (simp add: isCanvas_def lastPart_def parts0_def plain_row_def startsWith_def)
  show ?thesis
    using a b C10_single_segment_no_nesting_warning [OF a, of "fixed_host None None" "''out''" None None]
    by simp
qed

subsection \<open>Claim C5\<close>

lemma manifest_warning_filter:
  "filter is_manifest_warning (snd (processRecord h r out inp fm))
     = filter is_manifest_warning (nesting_warnings r)"
proof -
  have "filter is_manifest_warning (filter is_nesting_warning (snd (processRecord h r out inp fm)))
        = filter is_manifest_warning (snd (processRecord h r out inp fm))"
  proof -
    have "\<And>e. is_manifest_warning e \<Longrightarrow> is_nesting_warning e"
      by (case_tac e) auto
    then show ?thesis by (auto intro: filter_cong)
  qed
  then show ?thesis by (simp add: processRecord_nesting)
qed

text \<open>
  C5, as stated, fails: the program tests the terminal segment twice, independently.
  The segment \<^verbatim>\<open>canvas_manifest\<close> below \<^verbatim>\<open>manifest1\<close> starts with \<^verbatim>\<open>canvas\<close> and still
  causes the manifest-inside-manifest warning.
\<close>

theorem C5_counterexample:
  "isCanvas (plain_row ''manifest1/canvas_manifest'')
   \<and> WarnManifestNesting ''canvas_manifest'' ''manifest1''
       \<in> set (snd (processRecord (fixed_host None None)
                (plain_row ''manifest1/canvas_manifest'') ''out'' None None))"
  by (simp add: processRecord_def nesting_warnings_def parentPart_def parts_def isCanvas_def
      isManifest_def lastPart_def parts0_def plain_row_def startsWith_def truthy_str_def
      text_of_def Let_def)

text \<open>
  C5, amended. The terminal segment is treated as a canvas exactly when it starts
  with \<^verbatim>\<open>canvas\<close> (the directory created for it carries the marker exactly then)
  and, independently, as a manifest exactly when it contains \<^verbatim>\<open>manifest\<close>. The
  manifest-inside-manifest warning is emitted exactly when the
  terminal segment contains \<^verbatim>\<open>manifest\<close> and the parent segment is non-empty and
  contains \<^verbatim>\<open>manifest\<close>; a terminal segment that starts with \<^verbatim>\<open>canvas\<close> and does not
  contain \<^verbatim>\<open>manifest\<close> never causes it.
\<close>

theorem C5_terminal_segment_tests:
  "(isCanvas r \<longleftrightarrow> startsWith (last (split_str CHR ''/'' (hierarchy r))) ''canvas'')
   \<and> (isManifest r \<longleftrightarrow> includes_str (last (split_str CHR ''/'' (hierarchy r))) ''manifest'')
   \<and> created_dirs (snd (processRecord h r out inp fm))
       = [out # butlast (split_str CHR ''/'' (hierarchy r))
            @ [if isCanvas r then CHR ''_'' # last (split_str CHR ''/'' (hierarchy r))
               else last (split_str CHR ''/'' (hierarchy r))]]
   \<and> (filter is_manifest_warning (snd (processRecord h r out inp fm)) \<noteq> []
        \<longleftrightarrow> isManifest r \<and> (\<exists>p. parentPart r = Some p \<and> p \<noteq> [] \<and> includes_str p ''manifest''))
   \<and> (isCanvas r \<and> \<not> isManifest r
        \<longrightarrow> filter is_manifest_warning (snd (processRecord h r out inp fm)) = [])"
proof -
  have d: "created_dirs (snd (processRecord h r out inp fm))
       = [out # butlast (split_str CHR ''/'' (hierarchy r))
            @ [if isCanvas r then CHR ''_'' # last (split_str CHR ''/'' (hierarchy r))
               else last (split_str CHR ''/'' (hierarchy r))]]"
    using parts_canvas [of r] parts_plain [of r]
    by (simp add: processRecord_created_dirs fullPath_def lastPart_last parts0_def)
  have rest: "(isCanvas r \<longleftrightarrow> startsWith (last (split_str CHR ''/'' (hierarchy r))) ''canvas'')
   \<and> (isManifest r \<longleftrightarrow> includes_str (last (split_str CHR ''/'' (hierarchy r))) ''manifest'')
   \<and> (filter is_manifest_warning (snd (processRecord h r out inp fm)) \<noteq> []
        \<longleftrightarrow> isManifest r \<and> (\<exists>p. parentPart r = Some p \<and> p \<noteq> [] \<and> includes_str p ''manifest''))
   \<and> (isCanvas r \<and> \<not> isManifest r
        \<longrightarrow> filter is_manifest_warning (snd (processRecord h r out inp fm)) = [])"
    by (auto simp: manifest_warning_filter nesting_warnings_def isCanvas_def isManifest_def
      lastPart_last truthy_str_def text_of_def split: option.splits)
  show ?thesis using d rest by blast
qed

theorem C5_witness:
  "isCanvas (plain_row ''manifest1/canvas1'') \<and> \<not> isManifest (plain_row ''manifest1/canvas1'')
   \<and> filter is_manifest_warning (snd (processRecord (fixed_host None None)
         (plain_row ''manifest1/canvas1'') ''out'' None None)) = []"
proof -
  have a: "isCanvas (plain_row ''manifest1/canvas1'') \<and> \<not> isManifest (plain_row ''manifest1/canvas1'')"
    by (simp add: isCanvas_def isManifest_def lastPart_def parts0_def plain_row_def startsWith_def)
  show ?thesis
    using a C5_terminal_segment_tests [of "plain_row ''manifest1/canvas1''" "fixed_host None None" "''out''" None None]
    by blast
qed

subsection \<open>Claim C8\<close>

text \<open>
  C8, as stated, fails where the parent segment is the empty string: the canvas of
  \<^verbatim>\<open>root//canvas1\<close> has a parent segment that is no manifest, and no warning is
  emitted, since the program guards both checks by the parent segment being truthy.
\<close>

theorem C8_counterexample:
  "isCanvas (plain_row ''root//canvas1'')
   \<and> parentPart (plain_row ''root//canvas1'') = Some []
   \<and> \<not> includes_str [] ''manifest''
   \<and> filter is_nesting_warning (snd (processRecord (fixed_host None None)
         (plain_row ''root//canvas1'') ''out'' None None)) = []"
  by (simp add: processRecord_def nesting_warnings_def parentPart_def parts_def isCanvas_def
      isManifest_def lastPart_def parts0_def plain_row_def startsWith_def truthy_str_def
      text_of_def Let_def)

text \<open>
  C8, amended. When the terminal segment starts with \<^verbatim>\<open>canvas\<close> and its parent segment
  is non-empty and does not contain \<^verbatim>\<open>manifest\<close>, or the terminal segment contains
  \<^verbatim>\<open>manifest\<close> and its parent segment does too, a nesting warning naming the
  terminal segment and the parent segment is emitted, the row's directory is created
  and its sidecar is written, with the document of the row as it is after processing.
\<close>

theorem C8_nesting_violation_not_fatal:
  assumes "(isCanvas r \<and> parentPart r = Some p \<and> p \<noteq> [] \<and> \<not> includes_str p ''manifest'')
           \<or> (isManifest r \<and> parentPart r = Some p \<and> includes_str p ''manifest'')"
  shows "(WarnCanvasNesting (lastPart r) p \<in> set (snd (processRecord h r out inp fm))
          \<or> WarnManifestNesting (lastPart r) p \<in> set (snd (processRecord h r out inp fm)))
         \<and> created_dirs (snd (processRecord h r out inp fm)) = [fullPath out r]
         \<and> written_files (snd (processRecord h r out inp fm))
             = [(fullPath out r @ [''info.yml''],
                 createInfoYml h (fst (processRecord h r out inp fm)))]"
proof -
  have "p \<noteq> []" using assms by auto
  then have "WarnCanvasNesting (lastPart r) p \<in> set (nesting_warnings r)
     \<or> WarnManifestNesting (lastPart r) p \<in> set (nesting_warnings r)"
    using assms by (auto simp: nesting_warnings_def truthy_str_def text_of_def)
  then have "WarnCanvasNesting (lastPart r) p \<in> set (snd (processRecord h r out inp fm))
          \<or> WarnManifestNesting (lastPart r) p \<in> set (snd (processRecord h r out inp fm))"
    using nesting_warnings_emitted [of r h out inp fm] by blast
  then show ?thesis
    by (simp add: processRecord_created_dirs processRecord_written_files)
qed

theorem C8_witness:
  "isCanvas (plain_row ''root/canvas1'') \<and> parentPart (plain_row ''root/canvas1'') = Some ''root''
   \<and> \<not> includes_str ''root'' ''manifest''
   \<and> (WarnCanvasNesting ''canvas1'' ''root''
         \<in> set (snd (processRecord (fixed_host None None) (plain_row ''root/canvas1'') ''out'' None None))
        \<or> WarnManifestNesting ''canvas1'' ''root''
         \<in> set (snd (processRecord (fixed_host None None) (plain_row ''root/canvas1'') ''out'' None None)))
   \<and> created_dirs (snd (processRecord (fixed_host None None)
         (plain_row ''root/canvas1'') ''out'' None None)) = [[''out'', ''root'', ''_canvas1'']]
   \<and> map fst (written_files (snd (processRecord (fixed_host None None)
         (plain_row ''root/canvas1'') ''out'' None None))) = [[''out'', ''root'', ''_canvas1'', ''info.yml'']]"
proof -
  have a: "isCanvas (plain_row ''root/canvas1'') \<and> parentPart (plain_row ''root/canvas1'') = Some ''root''
     \<and> ''root'' \<noteq> [] \<and> \<not> includes_str ''root'' ''manifest''"
    by code_simp
  have l: "lastPart (plain_row ''root/canvas1'') = ''canvas1''" by code_simp
  have c: "fullPath ''out'' (plain_row ''root/canvas1'') = [''out'', ''root'', ''_canvas1'']"
    by code_simp
  have "(WarnCanvasNesting (lastPart (plain_row ''root/canvas1'')) ''root''
          \<in> set (snd (processRecord (fixed_host None None) (plain_row ''root/canvas1'') ''out'' None None))
         \<or> WarnManifestNesting (lastPart (plain_row ''root/canvas1'')) ''root''
          \<in> set (snd (processRecord (fixed_host None None) (plain_row ''root/canvas1'') ''out'' None None)))
     \<and> created_dirs (snd (processRecord (fixed_host None None) (plain_row ''root/canvas1'') ''out'' None None))
          = [fullPath ''out'' (plain_row ''root/canvas1'')]
     \<and> written_files (snd (processRecord (fixed_host None None) (plain_row ''root/canvas1'') ''out'' None None))
          = [(fullPath ''out'' (plain_row ''root/canvas1'') @ [''info.yml''],
              createInfoYml (fixed_host None None)
                (fst (processRecord (fixed_host None None) (plain_row ''root/canvas1'') ''out'' None None)))]"
    using a by (intro C8_nesting_violation_not_fatal) blast
  then show ?thesis using a unfolding l c by simp
qed

subsection \<open>Claim C9\<close>

lemma copied_files_append: "copied_files (xs @ ys) = copied_files xs @ copied_files ys"
  by (induction xs rule: copied_files.induct) auto

lemma copy_matching_copied: "copied_files (snd (copy_matching h p fs r)) = fs"
proof (induction fs arbitrary: r)
  case Nil
  then show ?case by simp
next
  case (Cons f fs)
  show ?case
    using Cons [of "fst (addFileMetadata h f r)"] addFileMetadata_events [of h f r]
    by (auto simp: Let_def split_beta copied_files_append)
qed

lemma processRecord_copied:
  "truthy_str inp \<Longrightarrow> isCanvas r \<Longrightarrow>
   copied_files (snd (processRecord h r out inp (Some fm))) = matchingFiles r fm"
  by (simp add: processRecord_def Let_def split_beta copied_files_append copy_matching_copied
      nesting_warnings_def)

text \<open>
  C9. For a canvas row processed with an input directory and an asset index, the
  files copied are the matching files among all files of all buckets of the index, in
  bucket order: a file is copied exactly when it is in some bucket, whatever its
  directory, and satisfies the matching predicate.
\<close>

theorem C9_candidate_pool_is_whole_index:
  assumes "truthy_str inp" and "isCanvas r"
  shows "copied_files (snd (processRecord h r out inp (Some fm)))
           = filter (file_matches (isAudio r) (canvasIndex r)) (concat (map snd fm))
         \<and> (\<forall>f. f \<in> set (copied_files (snd (processRecord h r out inp (Some fm))))
                \<longleftrightarrow> (\<exists>d fs. (d, fs) \<in> set fm \<and> f \<in> set fs)
                    \<and> file_matches (isAudio r) (canvasIndex r) f)"
  using assms by (force simp: processRecord_copied matchingFiles_def all_files_def)


theorem C9_witness:
  "truthy_str (Some ''in'') \<and> isCanvas (plain_row ''manifest1/canvas1'')
   \<and> copied_files (snd (processRecord (fixed_host None None) (plain_row ''manifest1/canvas1'')
        ''out'' (Some ''in'')
        (Some [(''in/a'', [''in/a/x_01.jpg'', ''in/a/x_02.jpg'']), (''in/b/deep'', [''in/b/deep/y_1.jpeg''])])))
     = [''in/a/x_01.jpg'', ''in/b/deep/y_1.jpeg'']"
proof -
  have a: "truthy_str (Some ''in'')" by (simp add: truthy_str_def)
  have b: "isCanvas (plain_row ''manifest1/canvas1'')" by code_simp
  have c: "filter (file_matches (isAudio (plain_row ''manifest1/canvas1''))
                     (canvasIndex (plain_row ''manifest1/canvas1'')))
             (concat (map snd [(''in/a'', [''in/a/x_01.jpg'', ''in/a/x_02.jpg'']), (''in/b/deep'', [''in/b/deep/y_1.jpeg''])]))
           = [''in/a/x_01.jpg'', ''in/b/deep/y_1.jpeg'']"
    by code_simp
  show ?thesis
    using a b c C9_candidate_pool_is_whole_index [OF a b, of "fixed_host None None" "''out''"
        "[(''in/a'', [''in/a/x_01.jpg'', ''in/a/x_02.jpg'']), (''in/b/deep'', [''in/b/deep/y_1.jpeg''])]"]
    by simp
qed

subsection \<open>Claim C6\<close>

lemma map_of_obj_set: "map_of (obj_set k v obj) = (map_of obj)(k \<mapsto> v)"
  by (induction obj) (auto simp: fun_eq_iff)

lemma info_get_set_if:
  "info_get (set_if c k v obj) k' = (if c \<and> k = k' then Some v else info_get obj k')"
  by (simp add: info_get_def set_if_def map_of_obj_set)

lemma info_get_Nil: "info_get [] k = None"
  by (simp add: info_get_def)

lemma createInfoYml_provider:
  "info_get (createInfoYml h r) ''provider'' =
      (if truthy_str (field r ''provider.id'') \<and> truthy_str (field r ''provider.type'')
          \<and> truthy_str (field r ''provider.label'')
       then Some (group3 r ''provider'' ''id'' ''type'' ''label'') else None)"
  by (simp add: createInfoYml_def Let_def info_get_set_if info_get_Nil)

lemma createInfoYml_homepage:
  "info_get (createInfoYml h r) ''homepage'' =
      (if truthy_str (field r ''homepage.id'') \<and> truthy_str (field r ''homepage.type'')
          \<and> truthy_str (field r ''homepage.label'')
       then Some (group3 r ''homepage'' ''id'' ''type'' ''label'') else None)"
  by (simp add: createInfoYml_def Let_def info_get_set_if info_get_Nil)

lemma createInfoYml_seeAlso:
  "info_get (createInfoYml h r) ''seeAlso'' =
      (if truthy_str (field r ''seeAlso.id'') \<and> truthy_str (field r ''seeAlso.type'')
          \<and> truthy_str (field r ''seeAlso.label'')
       then Some (group3 r ''seeAlso'' ''id'' ''type'' ''label'') else None)"
  by (simp add: createInfoYml_def Let_def info_get_set_if info_get_Nil)

lemma createInfoYml_rendering:
  "info_get (createInfoYml h r) ''rendering'' =
      (if truthy_str (field r ''rendering.id'') \<and> truthy_str (field r ''rendering.type'')
          \<and> truthy_str (field r ''rendering.label'')
       then Some (group3 r ''rendering'' ''id'' ''type'' ''label'') else None)"
  by (simp add: createInfoYml_def Let_def info_get_set_if info_get_Nil)

lemma createInfoYml_start:
  "info_get (createInfoYml h r) ''start'' =
      (if truthy_str (field r ''start.id'') \<and> truthy_str (field r ''start.type'')
          \<and> truthy_str (field r ''start.label'')
       then Some (group3 r ''start'' ''id'' ''type'' ''label'') else None)"
  by (simp add: createInfoYml_def Let_def info_get_set_if info_get_Nil)

lemma createInfoYml_supplementary:
  "info_get (createInfoYml h r) ''supplementary'' =
      (if truthy_str (field r ''supplementary.id'') \<and> truthy_str (field r ''supplementary.type'')
          \<and> truthy_str (field r ''supplementary.label'')
       then Some (group3 r ''supplementary'' ''id'' ''type'' ''label'') else None)"
  by (simp add: createInfoYml_def Let_def info_get_set_if info_get_Nil)

lemma createInfoYml_services:
  "info_get (createInfoYml h r) ''services'' =
      (if truthy_str (field r ''services.id'') \<and> truthy_str (field r ''services.type'')
          \<and> truthy_str (field r ''services.profile'')
       then Some (group3 r ''services'' ''id'' ''type'' ''profile'') else None)"
  by (simp add: createInfoYml_def Let_def info_get_set_if info_get_Nil)

lemma createInfoYml_requiredStatement:
  "info_get (createInfoYml h r) ''requiredStatement'' =
      (if truthy_str (field r ''requiredStatement.label'')
          \<and> truthy_str (field r ''requiredStatement.value'')
       then Some (YMap [(''label'', text_of (field r ''requiredStatement.label'')),
                        (''value'', text_of (field r ''requiredStatement.value''))])
       else None)"
  by (simp add: createInfoYml_def Let_def info_get_set_if info_get_Nil)

lemma createInfoYml_no_dotted_key:
  "info_get (createInfoYml h r) (''provider.'' @ rest) = None"
  by (simp add: createInfoYml_def Let_def info_get_set_if info_get_Nil)


text \<open>
  C6. For every row, each compound group (\<^verbatim>\<open>provider\<close>, \<^verbatim>\<open>homepage\<close>, \<^verbatim>\<open>seeAlso\<close>,
  \<^verbatim>\<open>rendering\<close>, \<^verbatim>\<open>start\<close>, \<^verbatim>\<open>supplementary\<close>, \<^verbatim>\<open>services\<close>,
  \<^verbatim>\<open>requiredStatement\<close>) is in the document, with the values of its sub-keys, exactly
  when all of its sub-keys are present and non-empty on the row, and is absent
  otherwise. A row with \<^verbatim>\<open>provider.id\<close> and \<^verbatim>\<open>provider.type\<close> but no \<^verbatim>\<open>provider.label\<close>
  has no \<^verbatim>\<open>provider\<close> entry and no entry under a \<^verbatim>\<open>provider.\<close> key.
\<close>

theorem C6_compound_groups_all_or_nothing:
  "(info_get (createInfoYml h r) ''provider'' =
      (if truthy_str (field r ''provider.id'') \<and> truthy_str (field r ''provider.type'')
          \<and> truthy_str (field r ''provider.label'')
       then Some (group3 r ''provider'' ''id'' ''type'' ''label'') else None))
   \<and> (info_get (createInfoYml h r) ''homepage'' =
      (if truthy_str (field r ''homepage.id'') \<and> truthy_str (field r ''homepage.type'')
          \<and> truthy_str (field r ''homepage.label'')
       then Some (group3 r ''homepage'' ''id'' ''type'' ''label'') else None))
   \<and> (info_get (createInfoYml h r) ''seeAlso'' =
      (if truthy_str (field r ''seeAlso.id'') \<and> truthy_str (field r ''seeAlso.type'')
          \<and> truthy_str (field r ''seeAlso.label'')
       then Some (group3 r ''seeAlso'' ''id'' ''type'' ''label'') else None))
   \<and> (info_get (createInfoYml h r) ''rendering'' =
      (if truthy_str (field r ''rendering.id'') \<and> truthy_str (field r ''rendering.type'')
          \<and> truthy_str (field r ''rendering.label'')
       then Some (group3 r ''rendering'' ''id'' ''type'' ''label'') else None))
   \<and> (info_get (createInfoYml h r) ''start'' =
      (if truthy_str (field r ''start.id'') \<and> truthy_str (field r ''start.type'')
          \<and> truthy_str (field r ''start.label'')
       then Some (group3 r ''start'' ''id'' ''type'' ''label'') else None))
   \<and> (info_get (createInfoYml h r) ''supplementary'' =
      (if truthy_str (field r ''supplementary.id'') \<and> truthy_str (field r ''supplementary.type'')
          \<and> truthy_str (field r ''supplementary.label'')
       then Some (group3 r ''supplementary'' ''id'' ''type'' ''label'') else None))
   \<and> (info_get (createInfoYml h r) ''services'' =
      (if truthy_str (field r ''services.id'') \<and> truthy_str (field r ''services.type'')
          \<and> truthy_str (field r ''services.profile'')
       then Some (group3 r ''services'' ''id'' ''type'' ''profile'') else None))
   \<and> (info_get (createInfoYml h r) ''requiredStatement'' =
      (if truthy_str (field r ''requiredStatement.label'')
          \<and> truthy_str (field r ''requiredStatement.value'')
       then Some (YMap [(''label'', text_of (field r ''requiredStatement.label'')),
                        (''value'', text_of (field r ''requiredStatement.value''))])
       else None))
   \<and> (truthy_str (field r ''provider.id'') \<and> truthy_str (field r ''provider.type'')
        \<and> \<not> truthy_str (field r ''provider.label'')
        \<longrightarrow> info_get (createInfoYml h r) ''provider'' = None
            \<and> (\<forall>rest. info_get (createInfoYml h r) (''provider.'' @ rest) = None))"
  unfolding createInfoYml_provider createInfoYml_homepage createInfoYml_seeAlso
    createInfoYml_rendering createInfoYml_start createInfoYml_supplementary
    createInfoYml_services createInfoYml_requiredStatement
  using createInfoYml_no_dotted_key [of h r] by simp

theorem C6_witness:
  "truthy_str (field ((plain_row ''root/manifest1'')\<lparr>dynamic := [(''provider.id'', ''https://example.org''), (''provider.type'', ''Agent'')]\<rparr>) ''provider.id'')
   \<and> truthy_str (field ((plain_row ''root/manifest1'')\<lparr>dynamic := [(''provider.id'', ''https://example.org''), (''provider.type'', ''Agent'')]\<rparr>) ''provider.type'')
   \<and> \<not> truthy_str (field ((plain_row ''root/manifest1'')\<lparr>dynamic := [(''provider.id'', ''https://example.org''), (''provider.type'', ''Agent'')]\<rparr>) ''provider.label'')
   \<and> info_get (createInfoYml (fixed_host None None)
         ((plain_row ''root/manifest1'')\<lparr>dynamic := [(''provider.id'', ''https://example.org''), (''provider.type'', ''Agent'')]\<rparr>))
        ''provider'' = None"
proof -
  let ?r = "(plain_row ''root/manifest1'')\<lparr>dynamic := [(''provider.id'', ''https://example.org''), (''provider.type'', ''Agent'')]\<rparr>"
  have a: "truthy_str (field ?r ''provider.id'') \<and> truthy_str (field ?r ''provider.type'')
        \<and> \<not> truthy_str (field ?r ''provider.label'')"
    by (simp add: field_def truthy_str_def plain_row_def)
  show ?thesis
    using a C6_compound_groups_all_or_nothing [of "fixed_host None None" ?r] by blast
qed

subsection \<open>Characters, digits and parseInt\<close>

lemma of_char_lower:
  "(of_char (lower_char c) :: nat) = (if is_upper c then of_char c + 32 else of_char c)"
  by (simp add: lower_char_def is_upper_def)

lemma lower_char_fixed:
  assumes "(of_char d :: nat) < 97 \<or> (122 < (of_char d :: nat) \<and> (of_char d :: nat) < 224)"
  shows "lower_char c = d \<longleftrightarrow> c = d \<and> \<not> is_upper d"
proof
  assume e: "lower_char c = d"
  have "(of_char (lower_char c) :: nat) = of_char d" using e by simp
  then have n: "\<not> is_upper c" using assms by (auto simp: of_char_lower is_upper_def split: if_splits)
  then show "c = d \<and> \<not> is_upper d" using e by (auto simp: lower_char_def)
next
  assume "c = d \<and> \<not> is_upper d"
  then show "lower_char c = d" by (simp add: lower_char_def)
qed

lemma lower_char_underscore [simp]: "lower_char c = CHR ''_'' \<longleftrightarrow> c = CHR ''_''"
  by (subst lower_char_fixed) (auto simp: is_upper_def)

lemma lower_char_dot [simp]: "lower_char c = CHR ''.'' \<longleftrightarrow> c = CHR ''.''"
  by (subst lower_char_fixed) (auto simp: is_upper_def)

lemma is_digit_lower [simp]: "is_digit (lower_char c) \<longleftrightarrow> is_digit c"
  by (auto simp: is_digit_def of_char_lower is_upper_def)

lemma lower_char_digit: "is_digit c \<Longrightarrow> lower_char c = c"
  by (auto simp: is_digit_def lower_char_def is_upper_def)

lemma map_lower_digits: "list_all is_digit ds \<Longrightarrow> map lower_char ds = ds"
  by (induction ds) (auto simp: lower_char_digit)

lemma map_lower_digits_back:
  "list_all is_digit (map lower_char ds) \<Longrightarrow> map lower_char ds = ds"
  by (induction ds) (auto simp: lower_char_digit)

lemma digit_not_special:
  "is_digit c \<Longrightarrow> \<not> is_space c \<and> c \<noteq> CHR ''-'' \<and> c \<noteq> CHR ''+'' \<and> c \<noteq> CHR ''x''
     \<and> c \<noteq> CHR ''X'' \<and> c \<noteq> CHR ''.'' \<and> c \<noteq> CHR ''_'' \<and> c \<noteq> CHR ''a''"
  by (auto simp: is_digit_def is_space_def)

lemma takeWhile_all: "list_all P xs \<Longrightarrow> takeWhile P xs = xs"
  by (induction xs) auto

lemma parseInt_digits:
  assumes "ds \<noteq> []" and "list_all is_digit ds"
  shows "parseInt ds = Some (dec_value ds)"
proof -
  obtain c cs where e: "ds = c # cs" using assms(1) by (cases ds) auto
  have c: "is_digit c" and cs: "list_all is_digit cs" using assms(2) e by auto
  have s: "dropWhile is_space ds = ds" using c e digit_not_special by auto
  have h: "\<not> startsWith ds ''0x'' \<and> \<not> startsWith ds ''0X''"
  proof (cases cs)
    case Nil
    then show ?thesis using e by (simp add: startsWith_def)
  next
    case (Cons d ds')
    then have "is_digit d" using cs by simp
    then show ?thesis using e Cons digit_not_special [of d] by (auto simp: startsWith_def)
  qed
  have m: "\<not> startsWith ds ''-'' \<and> \<not> startsWith ds ''+''"
    using e c digit_not_special [of c] by (auto simp: startsWith_def)
  show ?thesis
    using assms s h m by (simp add: parseInt_def Let_def takeWhile_all)
qed

lemma parseInt_no_digit:
  assumes "\<forall>c \<in> set s. \<not> is_digit c"
  shows "parseInt s = None"
proof -
  define s1 where "s1 = dropWhile is_space s"
  define s2 where "s2 = (if startsWith s1 ''-'' \<or> startsWith s1 ''+'' then drop 1 s1 else s1)"
  have a1: "\<forall>c \<in> set s1. \<not> is_digit c"
    using assms set_dropWhileD unfolding s1_def by fastforce
  have a2: "\<forall>c \<in> set s2. \<not> is_digit c"
    using a1 unfolding s2_def by (auto dest: in_set_dropD)
  have h: "\<not> startsWith s2 ''0x'' \<and> \<not> startsWith s2 ''0X''"
  proof (cases s2)
    case Nil then show ?thesis by (simp add: startsWith_def)
  next
    case (Cons c cs)
    then have "\<not> is_digit c" using a2 by simp
    then have "c \<noteq> CHR ''0''" by (auto simp: is_digit_def)
    then show ?thesis using Cons by (auto simp: startsWith_def)
  qed
  have t: "takeWhile is_digit s2 = []"
    using a2 by (cases s2) auto
  have p: "parseInt s =
      (if startsWith s2 ''0x'' \<or> startsWith s2 ''0X''
       then (if takeWhile is_hex_digit (drop 2 s2) = [] then None
             else Some ((if startsWith s1 ''-'' then - 1 else 1)
                        * hex_value (takeWhile is_hex_digit (drop 2 s2))))
       else (if takeWhile is_digit s2 = [] then None
             else Some ((if startsWith s1 ''-'' then - 1 else 1)
                        * dec_value (takeWhile is_digit s2))))"
    unfolding parseInt_def Let_def s1_def s2_def by (rule refl)
  show ?thesis unfolding p using h t by simp
qed


subsection \<open>The regular expressions\<close>

lemma takeWhile_stop:
  "\<forall>c \<in> set u. P c \<Longrightarrow> \<not> P d \<Longrightarrow> takeWhile P (u @ d # v) = u"
  by (induction u) auto

lemma dropWhile_stop:
  "\<forall>c \<in> set u. P c \<Longrightarrow> \<not> P d \<Longrightarrow> dropWhile P (u @ d # v) = d # v"
  by (induction u) auto

lemma regex_search_sound:
  "regex_search m s = Some g \<Longrightarrow> \<exists>pre t. s = pre @ t \<and> m t = Some g"
proof (induction s)
  case Nil
  then show ?case by simp
next
  case (Cons c cs)
  show ?case
  proof (cases "m (c # cs)")
    case None
    then have "regex_search m cs = Some g" using Cons.prems by simp
    then obtain pre t where "cs = pre @ t" "m t = Some g" using Cons.IH by blast
    then have "c # cs = (c # pre) @ t \<and> m t = Some g" by simp
    then show ?thesis by blast
  next
    case (Some a)
    then have "c # cs = [] @ (c # cs) \<and> m (c # cs) = Some g" using Cons.prems by simp
    then show ?thesis by blast
  qed
qed

lemma regex_search_first:
  assumes "m t = Some g" and "\<And>x. x \<noteq> [] \<Longrightarrow> m (x @ t) = None"
  shows "regex_search m (pre @ t) = Some g"
proof (induction pre)
  case Nil
  then show ?case using assms(1) by (cases t) auto
next
  case (Cons c pre)
  have "m ((c # pre) @ t) = None" by (rule assms(2)) simp
  then show ?case using Cons by simp
qed

lemma last_dot_suffix:
  assumes "CHR ''.'' \<notin> set e"
  shows "rev (takeWhile (\<lambda>c. c \<noteq> CHR ''.'') (rev (u @ CHR ''.'' # e))) = e"
proof -
  have "takeWhile (\<lambda>c. c \<noteq> CHR ''.'') (rev e @ CHR ''.'' # rev u) = rev e"
    by (rule takeWhile_stop) (use assms in auto)
  then show ?thesis by simp
qed

lemma last_dot_unique:
  assumes "u @ CHR ''.'' # e = u' @ CHR ''.'' # e'"
    and "CHR ''.'' \<notin> set e" and "CHR ''.'' \<notin> set e'"
  shows "u = u' \<and> e = e'"
proof -
  have "e = e'"
    using last_dot_suffix [OF assms(2), of u] last_dot_suffix [OF assms(3), of u'] assms(1)
    by simp
  then show ?thesis using assms(1) by simp
qed

lemma image_match_at_iff:
  "image_match_at s = Some ds \<longleftrightarrow>
     (\<exists>e. s = CHR ''_'' # ds @ CHR ''.'' # e \<and> ds \<noteq> [] \<and> list_all is_digit ds
          \<and> e \<noteq> [] \<and> CHR ''.'' \<notin> set e)"
proof
  assume a: "image_match_at s = Some ds"
  then obtain r where s: "s = CHR ''_'' # r"
    by (cases s) (auto simp: image_match_at_def startsWith_def split: if_splits)
  have ds: "ds = takeWhile is_digit r" and ne: "ds \<noteq> []"
    using a unfolding s image_match_at_def Let_def
    by (auto simp: startsWith_def split: if_splits)
  have st: "startsWith (dropWhile is_digit r) ''.''"
    and e2: "drop 1 (dropWhile is_digit r) \<noteq> []"
    and e3: "CHR ''.'' \<notin> set (drop 1 (dropWhile is_digit r))"
    using a unfolding s image_match_at_def Let_def
    by (simp_all add: startsWith_def split: if_splits)
  have e1: "dropWhile is_digit r = CHR ''.'' # drop 1 (dropWhile is_digit r)"
    using st by (cases "dropWhile is_digit r") (simp_all add: startsWith_def)
  define e where "e = drop 1 (dropWhile is_digit r)"
  have e: "dropWhile is_digit r = CHR ''.'' # e" "e \<noteq> []" "CHR ''.'' \<notin> set e"
    using e1 e2 e3 by (simp_all add: e_def)
  have "takeWhile is_digit r @ dropWhile is_digit r = r"
    by (rule takeWhile_dropWhile_id)
  then have "r = ds @ CHR ''.'' # e"
    unfolding e(1) ds [symmetric] by (rule sym)
  moreover have "list_all is_digit (takeWhile is_digit r)"
    unfolding list_all_iff by (blast dest: set_takeWhileD)
  then have "list_all is_digit ds" unfolding ds .
  ultimately show "\<exists>e. s = CHR ''_'' # ds @ CHR ''.'' # e \<and> ds \<noteq> [] \<and> list_all is_digit ds
          \<and> e \<noteq> [] \<and> CHR ''.'' \<notin> set e"
    using s ne e by blast
next
  assume "\<exists>e. s = CHR ''_'' # ds @ CHR ''.'' # e \<and> ds \<noteq> [] \<and> list_all is_digit ds
          \<and> e \<noteq> [] \<and> CHR ''.'' \<notin> set e"
  then obtain e where s: "s = CHR ''_'' # ds @ CHR ''.'' # e" and ne: "ds \<noteq> []"
    and d: "list_all is_digit ds" and e: "e \<noteq> []" "CHR ''.'' \<notin> set e" by blast
  have nd: "\<not> is_digit CHR ''.''" by (simp add: is_digit_def)
  have t: "takeWhile is_digit (ds @ CHR ''.'' # e) = ds"
    using d nd by (simp add: takeWhile_stop list_all_iff)
  have dr: "dropWhile is_digit (ds @ CHR ''.'' # e) = CHR ''.'' # e"
    using d nd by (simp add: dropWhile_stop list_all_iff)
  show "image_match_at s = Some ds"
    using ne e by (simp add: image_match_at_def s startsWith_def Let_def t dr)
qed

lemma image_match_at_unique:
  assumes "x \<noteq> []" and "list_all is_digit ds" and "CHR ''.'' \<notin> set e"
  shows "image_match_at (x @ CHR ''_'' # ds @ CHR ''.'' # e) = None"
proof (rule ccontr)
  assume "image_match_at (x @ CHR ''_'' # ds @ CHR ''.'' # e) \<noteq> None"
  then obtain ds' where "image_match_at (x @ CHR ''_'' # ds @ CHR ''.'' # e) = Some ds'" by auto
  then have "\<exists>e'. x @ CHR ''_'' # ds @ CHR ''.'' # e = CHR ''_'' # ds' @ CHR ''.'' # e'
      \<and> ds' \<noteq> [] \<and> list_all is_digit ds' \<and> e' \<noteq> [] \<and> CHR ''.'' \<notin> set e'"
    by (simp only: image_match_at_iff)
  then obtain e' where eq: "x @ CHR ''_'' # ds @ CHR ''.'' # e = CHR ''_'' # ds' @ CHR ''.'' # e'"
    and d': "list_all is_digit ds'" and e': "CHR ''.'' \<notin> set e'"
    by blast
  have "(x @ CHR ''_'' # ds) @ CHR ''.'' # e = (CHR ''_'' # ds') @ CHR ''.'' # e'"
    using eq by simp
  then have q: "x @ CHR ''_'' # ds = CHR ''_'' # ds'"
    by (rule conjunct1 [OF last_dot_unique [OF _ assms(3) e']])
  obtain c x' where x: "x = c # x'" using assms(1) by (cases x) auto
  have "ds' = x' @ CHR ''_'' # ds" using q unfolding x by simp
  then have "CHR ''_'' \<in> set ds'" by simp
  then have "is_digit CHR ''_''" using d' by (simp add: list_all_iff)
  then show False by (simp add: is_digit_def)
qed

lemma regex_search_image_iff:
  "regex_search image_match_at s = Some ds \<longleftrightarrow>
     (\<exists>pre e. s = pre @ CHR ''_'' # ds @ CHR ''.'' # e \<and> ds \<noteq> [] \<and> list_all is_digit ds
          \<and> e \<noteq> [] \<and> CHR ''.'' \<notin> set e)"
proof
  assume "regex_search image_match_at s = Some ds"
  then obtain pre t where s: "s = pre @ t" and t: "image_match_at t = Some ds"
    using regex_search_sound by blast
  from t have "\<exists>e. t = CHR ''_'' # ds @ CHR ''.'' # e \<and> ds \<noteq> [] \<and> list_all is_digit ds
          \<and> e \<noteq> [] \<and> CHR ''.'' \<notin> set e"
    by (simp only: image_match_at_iff)
  then show "\<exists>pre e. s = pre @ CHR ''_'' # ds @ CHR ''.'' # e \<and> ds \<noteq> [] \<and> list_all is_digit ds
          \<and> e \<noteq> [] \<and> CHR ''.'' \<notin> set e"
    unfolding s by blast
next
  assume "\<exists>pre e. s = pre @ CHR ''_'' # ds @ CHR ''.'' # e \<and> ds \<noteq> [] \<and> list_all is_digit ds
          \<and> e \<noteq> [] \<and> CHR ''.'' \<notin> set e"
  then obtain pre e where s: "s = pre @ CHR ''_'' # ds @ CHR ''.'' # e" and ne: "ds \<noteq> []"
    and d: "list_all is_digit ds" and e: "e \<noteq> []" "CHR ''.'' \<notin> set e" by blast
  have m: "image_match_at (CHR ''_'' # ds @ CHR ''.'' # e) = Some ds"
    unfolding image_match_at_iff using ne d e by blast
  show "regex_search image_match_at s = Some ds"
    unfolding s using m image_match_at_unique [OF _ d e(2)] by (rule regex_search_first)
qed


subsection \<open>Extensions\<close>

lemma extname_of_last_dot:
  assumes "basename p = u @ CHR ''.'' # e" and "CHR ''.'' \<notin> set e" and "u \<noteq> []"
    and "basename p \<noteq> ''..''"
  shows "extname p = CHR ''.'' # e"
proof -
  have suf: "rev (takeWhile (\<lambda>c. c \<noteq> CHR ''.'') (rev (basename p))) = e"
    unfolding assms(1) by (rule last_dot_suffix [OF assms(2)])
  have mem: "CHR ''.'' \<in> set (basename p)" unfolding assms(1) by simp
  have len: "length (basename p) \<noteq> Suc (length e)" unfolding assms(1) using assms(3) by simp
  show ?thesis
    unfolding extname_def Let_def suf using mem len assms(4) by simp
qed

lemma extname_nonempty:
  assumes "extname p \<noteq> []"
  shows "\<exists>u e. basename p = u @ extname p \<and> u \<noteq> [] \<and> extname p = CHR ''.'' # e
           \<and> CHR ''.'' \<notin> set e"
proof -
  define b where "b = basename p"
  define e where "e = rev (takeWhile (\<lambda>c. c \<noteq> CHR ''.'') (rev b))"
  have ex: "extname p = (if CHR ''.'' \<notin> set b then [] else if length b = Suc (length e) then []
                         else if b = ''..'' then [] else CHR ''.'' # e)"
    unfolding extname_def Let_def b_def e_def by (rule refl)
  have mem: "CHR ''.'' \<in> set b" and len: "length b \<noteq> Suc (length e)"
    and ext: "extname p = CHR ''.'' # e"
    using assms unfolding ex by (simp_all split: if_splits)
  have nd: "CHR ''.'' \<notin> set e"
    unfolding e_def by (auto dest: set_takeWhileD)
  have "dropWhile (\<lambda>c. c \<noteq> CHR ''.'') (rev b) \<noteq> []"
    using mem by simp
  then obtain w where w: "dropWhile (\<lambda>c. c \<noteq> CHR ''.'') (rev b) = CHR ''.'' # w"
    using hd_dropWhile [of "\<lambda>c. c \<noteq> CHR ''.''" "rev b"]
    by (cases "dropWhile (\<lambda>c. c \<noteq> CHR ''.'') (rev b)") auto
  have "takeWhile (\<lambda>c. c \<noteq> CHR ''.'') (rev b) @ dropWhile (\<lambda>c. c \<noteq> CHR ''.'') (rev b) = rev b"
    by (rule takeWhile_dropWhile_id)
  then have "rev b = rev e @ CHR ''.'' # w" unfolding w e_def by simp
  then have "rev (rev b) = rev (rev e @ CHR ''.'' # w)" by (rule arg_cong)
  then have bb: "b = rev w @ CHR ''.'' # e" by simp
  have "rev w \<noteq> []" using len unfolding bb by auto
  then show ?thesis using bb ext nd unfolding b_def by auto
qed

lemma map_lower_split_image:
  assumes "map lower_char b = pre' @ CHR ''_'' # g @ CHR ''.'' # e'"
    and "list_all is_digit g"
  shows "\<exists>pre e. b = pre @ CHR ''_'' # g @ CHR ''.'' # e \<and> map lower_char e = e'"
proof -
  obtain pre t where b: "b = pre @ t" and t: "map lower_char t = CHR ''_'' # g @ CHR ''.'' # e'"
    using assms(1) by (auto simp: map_eq_append_conv)
  obtain c1 t1 where t1: "t = c1 # t1" "lower_char c1 = CHR ''_''"
      "map lower_char t1 = g @ CHR ''.'' # e'"
    using t by (auto simp: map_eq_Cons_conv)
  obtain g0 t2 where t2: "t1 = g0 @ t2" "map lower_char g0 = g" "map lower_char t2 = CHR ''.'' # e'"
    using t1(3) by (auto simp: map_eq_append_conv)
  obtain c2 e where e: "t2 = c2 # e" "lower_char c2 = CHR ''.''" "map lower_char e = e'"
    using t2(3) by (auto simp: map_eq_Cons_conv)
  have "g0 = g" using map_lower_digits_back [of g0] assms(2) t2(2) by simp
  then have "b = pre @ CHR ''_'' # g @ CHR ''.'' # e"
    using b t1 t2 e by simp
  then show ?thesis using e(3) by blast
qed

lemma dot_map_lower: "CHR ''.'' \<in> set (map lower_char e) \<longleftrightarrow> CHR ''.'' \<in> set e"
proof -
  have "\<And>c. (CHR ''.'' = lower_char c) = (c = CHR ''.'')"
    using lower_char_dot by (auto simp: eq_commute)
  then show ?thesis by (auto simp: image_iff)
qed

subsection \<open>Claim C4\<close>

lemma file_matches_image_iff:
  "file_matches False (Some n) file \<longleftrightarrow>
      (toLowerCase (extname file) = ''.jpg'' \<or> toLowerCase (extname file) = ''.jpeg'')
      \<and> (\<exists>pre ds. basename file = pre @ CHR ''_'' # ds @ extname file
              \<and> ds \<noteq> [] \<and> list_all is_digit ds \<and> dec_value ds = n)"
proof -
  have fwd: "(toLowerCase (extname file) = ''.jpg'' \<or> toLowerCase (extname file) = ''.jpeg'')
      \<and> (\<exists>pre ds. basename file = pre @ CHR ''_'' # ds @ extname file
              \<and> ds \<noteq> [] \<and> list_all is_digit ds \<and> dec_value ds = n)"
    if a: "file_matches False (Some n) file"
  proof -
    have ext: "toLowerCase (extname file) = ''.jpg'' \<or> toLowerCase (extname file) = ''.jpeg''"
      using a unfolding file_matches_def Let_def by (simp split: if_splits)
    obtain g where g: "regex_search image_match_at (toLowerCase (basename file)) = Some g"
      and eq: "strict_eq (parseInt g) (Some n)"
      using a unfolding file_matches_def Let_def by (simp split: if_splits option.splits)
    from g have "\<exists>pre e. toLowerCase (basename file) = pre @ CHR ''_'' # g @ CHR ''.'' # e
        \<and> g \<noteq> [] \<and> list_all is_digit g \<and> e \<noteq> [] \<and> CHR ''.'' \<notin> set e"
      by (simp only: regex_search_image_iff)
    then obtain pre' e' where l: "map lower_char (basename file) = pre' @ CHR ''_'' # g @ CHR ''.'' # e'"
      and gne: "g \<noteq> []" and gd: "list_all is_digit g" and e': "e' \<noteq> []" "CHR ''.'' \<notin> set e'"
      unfolding toLowerCase_def by blast
    obtain pre e where b: "basename file = pre @ CHR ''_'' # g @ CHR ''.'' # e"
      and le: "map lower_char e = e'"
      using map_lower_split_image [OF l gd] by blast
    have nd: "CHR ''.'' \<notin> set e" using e'(2) dot_map_lower [of e] le by simp
    have b': "basename file = (pre @ CHR ''_'' # g) @ CHR ''.'' # e" using b by simp
    have nn: "basename file \<noteq> ''..''"
    proof
      assume "basename file = ''..''"
      then have "set (basename file) = {CHR ''.''}" by simp
      moreover have "CHR ''_'' \<in> set (basename file)" unfolding b by simp
      ultimately show False by simp
    qed
    have x: "extname file = CHR ''.'' # e"
      by (rule extname_of_last_dot [OF b' nd _ nn]) simp
    have "parseInt g = Some (dec_value g)" by (rule parseInt_digits [OF gne gd])
    then have "dec_value g = n" using eq by (simp add: strict_eq_def)
    then show ?thesis using ext b x gne gd by auto
  qed
  have bwd: "file_matches False (Some n) file"
    if ext: "toLowerCase (extname file) = ''.jpg'' \<or> toLowerCase (extname file) = ''.jpeg''"
      and b: "basename file = pre @ CHR ''_'' # ds @ extname file"
      and ne: "ds \<noteq> []" and d: "list_all is_digit ds" and v: "dec_value ds = n"
    for pre ds
  proof -
    have "extname file \<noteq> []" using ext by (auto simp: toLowerCase_def)
    then obtain e where x: "extname file = CHR ''.'' # e" and nd: "CHR ''.'' \<notin> set e"
      using extname_nonempty by blast
    have ene: "e \<noteq> []" using ext unfolding x toLowerCase_def by auto
    have l: "toLowerCase (basename file)
               = map lower_char pre @ CHR ''_'' # ds @ CHR ''.'' # map lower_char e"
      unfolding b x toLowerCase_def using map_lower_digits [OF d] by simp
    have "regex_search image_match_at (toLowerCase (basename file)) = Some ds"
      unfolding regex_search_image_iff l using ne d ene nd dot_map_lower [of e] by blast
    moreover have "parseInt ds = Some n" using parseInt_digits [OF ne d] v by simp
    ultimately show ?thesis
      unfolding file_matches_def Let_def using ext by (auto simp: strict_eq_def)
  qed
  show ?thesis using fwd bwd by blast
qed

text \<open>
  C4. For an image canvas row whose index is \<open>n\<close> (below \<open>2 ^ 53\<close> in magnitude, where
  the index read is the program's number), processed with an input directory and an
  asset index: the files matched, which are the files copied, are exactly the files of
  the index whose extension, lower-cased, is \<^verbatim>\<open>.jpg\<close> or \<^verbatim>\<open>.jpeg\<close> and whose file name
  ends with an underscore, a non-empty run of digits and the extension, the digit run
  having the decimal value \<open>n\<close>. For \<^verbatim>\<open>manifest1/canvas1\<close>, index 1, of
  \<^verbatim>\<open>BHC001_AF_01.JPG\<close> and \<^verbatim>\<open>BHC001_AF_010.JPG\<close> only the first is copied (\<^verbatim>\<open>01\<close> is 1,
  \<^verbatim>\<open>010\<close> is 10).
\<close>

theorem C4_image_matching:
  "(truthy_str inp \<and> isCanvas r \<and> \<not> isAudio r \<and> canvasIndex r = Some n \<and> \<bar>n\<bar> < 2 ^ 53
     \<longrightarrow> matchingFiles r fm
           = filter (\<lambda>file.
               (toLowerCase (extname file) = ''.jpg'' \<or> toLowerCase (extname file) = ''.jpeg'')
               \<and> (\<exists>pre ds. basename file = pre @ CHR ''_'' # ds @ extname file
                      \<and> ds \<noteq> [] \<and> list_all is_digit ds \<and> dec_value ds = n))
               (concat (map snd fm))
         \<and> copied_files (snd (processRecord h r out inp (Some fm))) = matchingFiles r fm)
   \<and> \<not> isAudio (plain_row ''manifest1/canvas1'')
   \<and> canvasIndex (plain_row ''manifest1/canvas1'') = Some 1
   \<and> copied_files (snd (processRecord probing_host (plain_row ''manifest1/canvas1'') ''out''
         (Some ''in'') (Some [(''in'', [''in/BHC001_AF_01.JPG'', ''in/BHC001_AF_010.JPG''])])))
       = [''in/BHC001_AF_01.JPG'']
   \<and> dec_value ''01'' = 1 \<and> dec_value ''010'' = 10"
proof -
  have g: "matchingFiles r fm
           = filter (\<lambda>file.
               (toLowerCase (extname file) = ''.jpg'' \<or> toLowerCase (extname file) = ''.jpeg'')
               \<and> (\<exists>pre ds. basename file = pre @ CHR ''_'' # ds @ extname file
                      \<and> ds \<noteq> [] \<and> list_all is_digit ds \<and> dec_value ds = n))
               (concat (map snd fm))
         \<and> copied_files (snd (processRecord h r out inp (Some fm))) = matchingFiles r fm"
    if a: "truthy_str inp \<and> isCanvas r \<and> \<not> isAudio r \<and> canvasIndex r = Some n \<and> \<bar>n\<bar> < 2 ^ 53"
  proof -
    have eq: "file_matches False (Some n) = (\<lambda>file.
               (toLowerCase (extname file) = ''.jpg'' \<or> toLowerCase (extname file) = ''.jpeg'')
               \<and> (\<exists>pre ds. basename file = pre @ CHR ''_'' # ds @ extname file
                      \<and> ds \<noteq> [] \<and> list_all is_digit ds \<and> dec_value ds = n))"
      by (rule ext) (rule file_matches_image_iff)
    have "matchingFiles r fm = filter (file_matches False (Some n)) (concat (map snd fm))"
      using a by (simp add: matchingFiles_def all_files_def)
    then have "matchingFiles r fm
           = filter (\<lambda>file.
               (toLowerCase (extname file) = ''.jpg'' \<or> toLowerCase (extname file) = ''.jpeg'')
               \<and> (\<exists>pre ds. basename file = pre @ CHR ''_'' # ds @ extname file
                      \<and> ds \<noteq> [] \<and> list_all is_digit ds \<and> dec_value ds = n))
               (concat (map snd fm))"
      unfolding eq .
    then show ?thesis using a processRecord_copied [of inp r h out fm] by blast
  qed
  have e1: "\<not> isAudio (plain_row ''manifest1/canvas1'')
     \<and> canvasIndex (plain_row ''manifest1/canvas1'') = Some 1" by code_simp
  have e2: "copied_files (snd (processRecord probing_host (plain_row ''manifest1/canvas1'') ''out''
         (Some ''in'') (Some [(''in'', [''in/BHC001_AF_01.JPG'', ''in/BHC001_AF_010.JPG''])])))
       = [''in/BHC001_AF_01.JPG'']" by code_simp
  have e3: "dec_value ''01'' = 1 \<and> dec_value ''010'' = 10" by code_simp
  show ?thesis using g e1 e2 e3 by blast
qed

theorem C4_witness:
  "truthy_str (Some ''in'') \<and> isCanvas (plain_row ''manifest1/canvas1'')
   \<and> \<not> isAudio (plain_row ''manifest1/canvas1'')
   \<and> canvasIndex (plain_row ''manifest1/canvas1'') = Some 1 \<and> \<bar>1 :: int\<bar> < 2 ^ 53
   \<and> filter (\<lambda>file.
         (toLowerCase (extname file) = ''.jpg'' \<or> toLowerCase (extname file) = ''.jpeg'')
         \<and> (\<exists>pre ds. basename file = pre @ CHR ''_'' # ds @ extname file
                \<and> ds \<noteq> [] \<and> list_all is_digit ds \<and> dec_value ds = 1))
       [''in/BHC001_AF_01.JPG'', ''in/BHC001_AF_010.JPG'']
     = [''in/BHC001_AF_01.JPG'']"
proof -
  let ?r = "plain_row ''manifest1/canvas1''"
  let ?fm = "[(''in'', [''in/BHC001_AF_01.JPG'', ''in/BHC001_AF_010.JPG''])]"
  have a: "truthy_str (Some ''in'') \<and> isCanvas ?r \<and> \<not> isAudio ?r
      \<and> canvasIndex ?r = Some 1 \<and> \<bar>1 :: int\<bar> < 2 ^ 53"
    by code_simp
  have m: "matchingFiles ?r ?fm = [''in/BHC001_AF_01.JPG'']" by code_simp
  have "matchingFiles ?r ?fm
      = filter (\<lambda>file.
         (toLowerCase (extname file) = ''.jpg'' \<or> toLowerCase (extname file) = ''.jpeg'')
         \<and> (\<exists>pre ds. basename file = pre @ CHR ''_'' # ds @ extname file
                \<and> ds \<noteq> [] \<and> list_all is_digit ds \<and> dec_value ds = 1))
         (concat (map snd ?fm))"
    using a C4_image_matching [of "Some ''in''" ?r 1 ?fm probing_host "''out''"] by blast
  then have "filter (\<lambda>file.
         (toLowerCase (extname file) = ''.jpg'' \<or> toLowerCase (extname file) = ''.jpeg'')
         \<and> (\<exists>pre ds. basename file = pre @ CHR ''_'' # ds @ extname file
                \<and> ds \<noteq> [] \<and> list_all is_digit ds \<and> dec_value ds = 1))
       [''in/BHC001_AF_01.JPG'', ''in/BHC001_AF_010.JPG'']
     = [''in/BHC001_AF_01.JPG'']"
    unfolding m by simp
  then show ?thesis using a by blast
qed


subsection \<open>Claim C3\<close>

lemma audio_match_at_iff:
  "audio_match_at s = Some ds \<longleftrightarrow>
     (\<exists>opt. s = ''part'' @ ds @ opt @ ''.mp3'' \<and> ds \<noteq> [] \<and> list_all is_digit ds
          \<and> (opt = [] \<or> (\<exists>ds2. opt = CHR ''-'' # ds2 \<and> ds2 \<noteq> [] \<and> list_all is_digit ds2)))"
proof
  assume a: "audio_match_at s = Some ds"
  have sp: "startsWith s ''part''"
    using a unfolding audio_match_at_def by (simp split: if_splits)
  define r where "r = drop 4 s"
  have l4: "length ''part'' = 4" by simp
  have tk: "take 4 s = ''part''" using sp unfolding startsWith_def l4 .
  have "take 4 s @ drop 4 s = s" by (rule append_take_drop_id)
  then have "''part'' @ r = s" unfolding tk r_def .
  then have s: "s = ''part'' @ r" by (rule sym)
  define rest where "rest = dropWhile is_digit r"
  have ds: "ds = takeWhile is_digit r" and ne: "ds \<noteq> []"
    using a sp unfolding audio_match_at_def Let_def r_def
    by (auto split: if_splits)
  have r: "r = ds @ rest"
    unfolding ds rest_def by simp
  have d: "list_all is_digit ds"
    unfolding ds list_all_iff by (blast dest: set_takeWhileD)
  have fin: "(if startsWith rest ''-'' \<and> takeWhile is_digit (drop 1 rest) \<noteq> []
              then dropWhile is_digit (drop 1 rest) else rest) = ''.mp3''"
    using a sp ne unfolding audio_match_at_def Let_def r_def rest_def ds
    by (simp split: if_splits)
  show "\<exists>opt. s = ''part'' @ ds @ opt @ ''.mp3'' \<and> ds \<noteq> [] \<and> list_all is_digit ds
          \<and> (opt = [] \<or> (\<exists>ds2. opt = CHR ''-'' # ds2 \<and> ds2 \<noteq> [] \<and> list_all is_digit ds2))"
  proof (cases "startsWith rest ''-'' \<and> takeWhile is_digit (drop 1 rest) \<noteq> []")
    case True
    define ds2 where "ds2 = takeWhile is_digit (drop 1 rest)"
    have r1: "rest = CHR ''-'' # drop 1 rest"
      using True by (cases rest) (simp_all add: startsWith_def)
    have dw: "dropWhile is_digit (drop 1 rest) = ''.mp3''"
      using fin True by (auto split: if_splits)
    have "drop 1 rest = takeWhile is_digit (drop 1 rest) @ dropWhile is_digit (drop 1 rest)"
      by simp
    then have "drop 1 rest = ds2 @ ''.mp3''" unfolding dw ds2_def .
    then have "rest = (CHR ''-'' # ds2) @ ''.mp3''" using r1 by simp
    moreover have "ds2 \<noteq> []" using True unfolding ds2_def by simp
    moreover have "list_all is_digit ds2"
      unfolding ds2_def list_all_iff by (blast dest: set_takeWhileD)
    ultimately show ?thesis using s r ne d by blast
  next
    case False
    then have "rest = [] @ ''.mp3''" using fin by (auto split: if_splits)
    then show ?thesis using s r ne d by blast
  qed
next
  assume "\<exists>opt. s = ''part'' @ ds @ opt @ ''.mp3'' \<and> ds \<noteq> [] \<and> list_all is_digit ds
          \<and> (opt = [] \<or> (\<exists>ds2. opt = CHR ''-'' # ds2 \<and> ds2 \<noteq> [] \<and> list_all is_digit ds2))"
  then obtain opt where s: "s = ''part'' @ ds @ opt @ ''.mp3''" and ne: "ds \<noteq> []"
    and d: "list_all is_digit ds"
    and o: "opt = [] \<or> (\<exists>ds2. opt = CHR ''-'' # ds2 \<and> ds2 \<noteq> [] \<and> list_all is_digit ds2)"
    by blast
  have sp: "startsWith s ''part''" unfolding s by (simp add: startsWith_def)
  have dr: "drop 4 s = ds @ opt @ ''.mp3''" unfolding s by simp
  have nd: "\<not> is_digit CHR ''.''" "\<not> is_digit CHR ''-''" by (simp_all add: is_digit_def)
  have da: "\<forall>c \<in> set ds. is_digit c" using d by (simp add: list_all_iff)
  from o show "audio_match_at s = Some ds"
  proof
    assume o1: "opt = []"
    have t: "takeWhile is_digit (ds @ CHR ''.'' # ''mp3'') = ds"
      by (rule takeWhile_stop [OF da nd(1)])
    have w: "dropWhile is_digit (ds @ CHR ''.'' # ''mp3'') = ''.mp3''"
      by (rule dropWhile_stop [OF da nd(1)])
    show ?thesis
      unfolding audio_match_at_def Let_def dr o1 using sp ne t w
      by (simp add: startsWith_def)
  next
    assume "\<exists>ds2. opt = CHR ''-'' # ds2 \<and> ds2 \<noteq> [] \<and> list_all is_digit ds2"
    then obtain ds2 where o2: "opt = CHR ''-'' # ds2" and ne2: "ds2 \<noteq> []"
      and d2: "list_all is_digit ds2" by blast
    have da2: "\<forall>c \<in> set ds2. is_digit c" using d2 by (simp add: list_all_iff)
    have t: "takeWhile is_digit (ds @ CHR ''-'' # ds2 @ ''.mp3'') = ds"
      by (rule takeWhile_stop [OF da nd(2)])
    have w: "dropWhile is_digit (ds @ CHR ''-'' # ds2 @ ''.mp3'') = CHR ''-'' # ds2 @ ''.mp3''"
      by (rule dropWhile_stop [OF da nd(2)])
    have t2: "takeWhile is_digit (ds2 @ CHR ''.'' # ''mp3'') = ds2"
      by (rule takeWhile_stop [OF da2 nd(1)])
    have w2: "dropWhile is_digit (ds2 @ CHR ''.'' # ''mp3'') = ''.mp3''"
      by (rule dropWhile_stop [OF da2 nd(1)])
    show ?thesis
      unfolding audio_match_at_def Let_def dr o2 using sp ne ne2 t w t2 w2
      by (simp add: startsWith_def)
  qed
qed


lemma audio_match_at_unique:
  assumes "x \<noteq> []"
  shows "audio_match_at (x @ ''part'' @ w) = None"
proof (rule ccontr)
  assume "audio_match_at (x @ ''part'' @ w) \<noteq> None"
  then obtain ds' where "audio_match_at (x @ ''part'' @ w) = Some ds'" by auto
  then have "\<exists>opt. x @ ''part'' @ w = ''part'' @ ds' @ opt @ ''.mp3'' \<and> ds' \<noteq> []
      \<and> list_all is_digit ds'
      \<and> (opt = [] \<or> (\<exists>ds2. opt = CHR ''-'' # ds2 \<and> ds2 \<noteq> [] \<and> list_all is_digit ds2))"
    by (simp only: audio_match_at_iff)
  then obtain opt' where eq: "x @ ''part'' @ w = ''part'' @ ds' @ opt' @ ''.mp3''"
    and d': "list_all is_digit ds'"
    and o': "opt' = [] \<or> (\<exists>ds2. opt' = CHR ''-'' # ds2 \<and> ds2 \<noteq> [] \<and> list_all is_digit ds2)"
    by blast
  have l: "CHR ''a'' \<in> set (drop 2 (x @ ''part'' @ w))"
  proof (cases x)
    case Nil
    then show ?thesis using assms by simp
  next
    case (Cons c x')
    then show ?thesis by (cases x') simp_all
  qed
  have na: "\<And>u. list_all is_digit u \<Longrightarrow> CHR ''a'' \<notin> set u"
    using digit_not_special by (auto simp: list_all_iff)
  have "CHR ''a'' \<notin> set opt'" using o' na by auto
  then have "CHR ''a'' \<notin> set (drop 2 (''part'' @ ds' @ opt' @ ''.mp3''))"
    using na [OF d'] by simp
  then show False using l unfolding eq by simp
qed

lemma regex_search_audio_iff:
  "regex_search audio_match_at s = Some ds \<longleftrightarrow>
     (\<exists>pre opt. s = pre @ ''part'' @ ds @ opt @ ''.mp3'' \<and> ds \<noteq> [] \<and> list_all is_digit ds
          \<and> (opt = [] \<or> (\<exists>ds2. opt = CHR ''-'' # ds2 \<and> ds2 \<noteq> [] \<and> list_all is_digit ds2)))"
proof
  assume "regex_search audio_match_at s = Some ds"
  then obtain pre t where s: "s = pre @ t" and t: "audio_match_at t = Some ds"
    using regex_search_sound by blast
  from t have "\<exists>opt. t = ''part'' @ ds @ opt @ ''.mp3'' \<and> ds \<noteq> [] \<and> list_all is_digit ds
          \<and> (opt = [] \<or> (\<exists>ds2. opt = CHR ''-'' # ds2 \<and> ds2 \<noteq> [] \<and> list_all is_digit ds2))"
    by (simp only: audio_match_at_iff)
  then show "\<exists>pre opt. s = pre @ ''part'' @ ds @ opt @ ''.mp3'' \<and> ds \<noteq> [] \<and> list_all is_digit ds
          \<and> (opt = [] \<or> (\<exists>ds2. opt = CHR ''-'' # ds2 \<and> ds2 \<noteq> [] \<and> list_all is_digit ds2))"
    unfolding s by blast
next
  assume "\<exists>pre opt. s = pre @ ''part'' @ ds @ opt @ ''.mp3'' \<and> ds \<noteq> [] \<and> list_all is_digit ds
          \<and> (opt = [] \<or> (\<exists>ds2. opt = CHR ''-'' # ds2 \<and> ds2 \<noteq> [] \<and> list_all is_digit ds2))"
  then obtain pre opt where s: "s = pre @ (''part'' @ ds @ opt @ ''.mp3'')" and ne: "ds \<noteq> []"
    and d: "list_all is_digit ds"
    and o: "opt = [] \<or> (\<exists>ds2. opt = CHR ''-'' # ds2 \<and> ds2 \<noteq> [] \<and> list_all is_digit ds2)"
    by auto
  have m: "audio_match_at (''part'' @ ds @ opt @ ''.mp3'') = Some ds"
    unfolding audio_match_at_iff using ne d o by blast
  show "regex_search audio_match_at s = Some ds"
    unfolding s using m audio_match_at_unique by (rule regex_search_first)
qed

lemma file_matches_audio_iff:
  "file_matches True (Some n) file \<longleftrightarrow>
      toLowerCase (extname file) = ''.mp3''
      \<and> (\<exists>pre ds opt. toLowerCase (basename file) = pre @ ''part'' @ ds @ opt @ ''.mp3''
             \<and> ds \<noteq> [] \<and> list_all is_digit ds
             \<and> (opt = [] \<or> (\<exists>ds2. opt = CHR ''-'' # ds2 \<and> ds2 \<noteq> [] \<and> list_all is_digit ds2))
             \<and> dec_value ds = n)"
proof -
  have fwd: "toLowerCase (extname file) = ''.mp3''
      \<and> (\<exists>pre ds opt. toLowerCase (basename file) = pre @ ''part'' @ ds @ opt @ ''.mp3''
             \<and> ds \<noteq> [] \<and> list_all is_digit ds
             \<and> (opt = [] \<or> (\<exists>ds2. opt = CHR ''-'' # ds2 \<and> ds2 \<noteq> [] \<and> list_all is_digit ds2))
             \<and> dec_value ds = n)"
    if a: "file_matches True (Some n) file"
  proof -
    have ext: "toLowerCase (extname file) = ''.mp3''"
      using a unfolding file_matches_def Let_def by (simp split: if_splits)
    obtain g where g: "regex_search audio_match_at (toLowerCase (basename file)) = Some g"
      and eq: "strict_eq (parseInt g) (Some n)"
      using a unfolding file_matches_def Let_def by (simp split: if_splits option.splits)
    from g have "\<exists>pre opt. toLowerCase (basename file) = pre @ ''part'' @ g @ opt @ ''.mp3''
        \<and> g \<noteq> [] \<and> list_all is_digit g
        \<and> (opt = [] \<or> (\<exists>ds2. opt = CHR ''-'' # ds2 \<and> ds2 \<noteq> [] \<and> list_all is_digit ds2))"
      by (simp only: regex_search_audio_iff)
    then obtain pre opt where l: "toLowerCase (basename file) = pre @ ''part'' @ g @ opt @ ''.mp3''"
      and gne: "g \<noteq> []" and gd: "list_all is_digit g"
      and o: "opt = [] \<or> (\<exists>ds2. opt = CHR ''-'' # ds2 \<and> ds2 \<noteq> [] \<and> list_all is_digit ds2)"
      by blast
    have "parseInt g = Some (dec_value g)" by (rule parseInt_digits [OF gne gd])
    then have "dec_value g = n" using eq by (simp add: strict_eq_def)
    then show ?thesis using ext l gne gd o by blast
  qed
  have bwd: "file_matches True (Some n) file"
    if ext: "toLowerCase (extname file) = ''.mp3''"
      and l: "toLowerCase (basename file) = pre @ ''part'' @ ds @ opt @ ''.mp3''"
      and ne: "ds \<noteq> []" and d: "list_all is_digit ds"
      and o: "opt = [] \<or> (\<exists>ds2. opt = CHR ''-'' # ds2 \<and> ds2 \<noteq> [] \<and> list_all is_digit ds2)"
      and v: "dec_value ds = n"
    for pre ds opt
  proof -
    have "regex_search audio_match_at (toLowerCase (basename file)) = Some ds"
      unfolding regex_search_audio_iff using l ne d o by blast
    moreover have "parseInt ds = Some n" using parseInt_digits [OF ne d] v by simp
    ultimately show ?thesis
      unfolding file_matches_def Let_def using ext by (simp add: strict_eq_def)
  qed
  show ?thesis using fwd bwd by blast
qed

text \<open>
  C3. For an audio canvas row whose index is \<open>n\<close> (below \<open>2 ^ 53\<close> in magnitude, where
  the index read is the program's number), processed with an input directory and an
  asset index: the files matched, which are the files copied, are exactly the files of
  the index whose extension, lower-cased, is \<^verbatim>\<open>.mp3\<close> and whose lower-cased file name
  ends with \<^verbatim>\<open>part\<close>, a non-empty run of digits, optionally a dash and another
  non-empty run of digits, and \<^verbatim>\<open>.mp3\<close>, the first digit run having the decimal value
  \<open>n\<close> (the expression is anchored at the end of the name only). For
  \<^verbatim>\<open>audio/canvas9\<close>, index 9, of \<^verbatim>\<open>Part09.mp3\<close>, \<^verbatim>\<open>Part9-1.mp3\<close> and \<^verbatim>\<open>Part10.mp3\<close>
  exactly the first two are copied.
\<close>

theorem C3_audio_matching:
  "(truthy_str inp \<and> isCanvas r \<and> isAudio r \<and> canvasIndex r = Some n \<and> \<bar>n\<bar> < 2 ^ 53
     \<longrightarrow> matchingFiles r fm
           = filter (\<lambda>file.
               toLowerCase (extname file) = ''.mp3''
               \<and> (\<exists>pre ds opt.
                      toLowerCase (basename file) = pre @ ''part'' @ ds @ opt @ ''.mp3''
                      \<and> ds \<noteq> [] \<and> list_all is_digit ds
                      \<and> (opt = [] \<or> (\<exists>ds2. opt = CHR ''-'' # ds2 \<and> ds2 \<noteq> []
                                          \<and> list_all is_digit ds2))
                      \<and> dec_value ds = n))
               (concat (map snd fm))
         \<and> copied_files (snd (processRecord h r out inp (Some fm))) = matchingFiles r fm)
   \<and> isAudio (plain_row ''audio/canvas9'')
   \<and> canvasIndex (plain_row ''audio/canvas9'') = Some 9
   \<and> copied_files (snd (processRecord probing_host (plain_row ''audio/canvas9'') ''out''
         (Some ''in'') (Some [(''in'', [''in/Part09.mp3'', ''in/Part9-1.mp3'', ''in/Part10.mp3''])])))
       = [''in/Part09.mp3'', ''in/Part9-1.mp3'']
   \<and> dec_value ''09'' = 9 \<and> dec_value ''9'' = 9 \<and> dec_value ''10'' = 10"
proof -
  have g: "matchingFiles r fm
           = filter (\<lambda>file.
               toLowerCase (extname file) = ''.mp3''
               \<and> (\<exists>pre ds opt.
                      toLowerCase (basename file) = pre @ ''part'' @ ds @ opt @ ''.mp3''
                      \<and> ds \<noteq> [] \<and> list_all is_digit ds
                      \<and> (opt = [] \<or> (\<exists>ds2. opt = CHR ''-'' # ds2 \<and> ds2 \<noteq> []
                                          \<and> list_all is_digit ds2))
                      \<and> dec_value ds = n))
               (concat (map snd fm))
         \<and> copied_files (snd (processRecord h r out inp (Some fm))) = matchingFiles r fm"
    if a: "truthy_str inp \<and> isCanvas r \<and> isAudio r \<and> canvasIndex r = Some n \<and> \<bar>n\<bar> < 2 ^ 53"
  proof -
    have eq: "file_matches True (Some n) = (\<lambda>file.
               toLowerCase (extname file) = ''.mp3''
               \<and> (\<exists>pre ds opt.
                      toLowerCase (basename file) = pre @ ''part'' @ ds @ opt @ ''.mp3''
                      \<and> ds \<noteq> [] \<and> list_all is_digit ds
                      \<and> (opt = [] \<or> (\<exists>ds2. opt = CHR ''-'' # ds2 \<and> ds2 \<noteq> []
                                          \<and> list_all is_digit ds2))
                      \<and> dec_value ds = n))"
      by (rule ext) (rule file_matches_audio_iff)
    have "matchingFiles r fm = filter (file_matches True (Some n)) (concat (map snd fm))"
      using a by (simp add: matchingFiles_def all_files_def)
    then have "matchingFiles r fm
           = filter (\<lambda>file.
               toLowerCase (extname file) = ''.mp3''
               \<and> (\<exists>pre ds opt.
                      toLowerCase (basename file) = pre @ ''part'' @ ds @ opt @ ''.mp3''
                      \<and> ds \<noteq> [] \<and> list_all is_digit ds
                      \<and> (opt = [] \<or> (\<exists>ds2. opt = CHR ''-'' # ds2 \<and> ds2 \<noteq> []
                                          \<and> list_all is_digit ds2))
                      \<and> dec_value ds = n))
               (concat (map snd fm))"
      unfolding eq .
    then show ?thesis using a processRecord_copied [of inp r h out fm] by blast
  qed
  have e1: "isAudio (plain_row ''audio/canvas9'')
     \<and> canvasIndex (plain_row ''audio/canvas9'') = Some 9" by code_simp
  have e2: "copied_files (snd (processRecord probing_host (plain_row ''audio/canvas9'') ''out''
         (Some ''in'') (Some [(''in'', [''in/Part09.mp3'', ''in/Part9-1.mp3'', ''in/Part10.mp3''])])))
       = [''in/Part09.mp3'', ''in/Part9-1.mp3'']" by code_simp
  have e3: "dec_value ''09'' = 9 \<and> dec_value ''9'' = 9 \<and> dec_value ''10'' = 10" by code_simp
  show ?thesis using g e1 e2 e3 by blast
qed

theorem C3_witness:
  "truthy_str (Some ''in'') \<and> isCanvas (plain_row ''audio/canvas9'')
   \<and> isAudio (plain_row ''audio/canvas9'')
   \<and> canvasIndex (plain_row ''audio/canvas9'') = Some 9 \<and> \<bar>9 :: int\<bar> < 2 ^ 53
   \<and> filter (\<lambda>file.
         toLowerCase (extname file) = ''.mp3''
         \<and> (\<exists>pre ds opt.
                toLowerCase (basename file) = pre @ ''part'' @ ds @ opt @ ''.mp3''
                \<and> ds \<noteq> [] \<and> list_all is_digit ds
                \<and> (opt = [] \<or> (\<exists>ds2. opt = CHR ''-'' # ds2 \<and> ds2 \<noteq> []
                                    \<and> list_all is_digit ds2))
                \<and> dec_value ds = 9))
       [''in/Part09.mp3'', ''in/Part9-1.mp3'', ''in/Part10.mp3'']
     = [''in/Part09.mp3'', ''in/Part9-1.mp3'']"
proof -
  let ?r = "plain_row ''audio/canvas9''"
  let ?fm = "[(''in'', [''in/Part09.mp3'', ''in/Part9-1.mp3'', ''in/Part10.mp3''])]"
  have a: "truthy_str (Some ''in'') \<and> isCanvas ?r \<and> isAudio ?r
      \<and> canvasIndex ?r = Some 9 \<and> \<bar>9 :: int\<bar> < 2 ^ 53"
    by code_simp
  have m: "matchingFiles ?r ?fm = [''in/Part09.mp3'', ''in/Part9-1.mp3'']" by code_simp
  have "matchingFiles ?r ?fm
      = filter (\<lambda>file.
         toLowerCase (extname file) = ''.mp3''
         \<and> (\<exists>pre ds opt.
                toLowerCase (basename file) = pre @ ''part'' @ ds @ opt @ ''.mp3''
                \<and> ds \<noteq> [] \<and> list_all is_digit ds
                \<and> (opt = [] \<or> (\<exists>ds2. opt = CHR ''-'' # ds2 \<and> ds2 \<noteq> []
                                    \<and> list_all is_digit ds2))
                \<and> dec_value ds = 9))
         (concat (map snd ?fm))"
    using a C3_audio_matching [of "Some ''in''" ?r 9 ?fm probing_host "''out''"] by blast
  then have "filter (\<lambda>file.
         toLowerCase (extname file) = ''.mp3''
         \<and> (\<exists>pre ds opt.
                toLowerCase (basename file) = pre @ ''part'' @ ds @ opt @ ''.mp3''
                \<and> ds \<noteq> [] \<and> list_all is_digit ds
                \<and> (opt = [] \<or> (\<exists>ds2. opt = CHR ''-'' # ds2 \<and> ds2 \<noteq> []
                                    \<and> list_all is_digit ds2))
                \<and> dec_value ds = 9))
       [''in/Part09.mp3'', ''in/Part9-1.mp3'', ''in/Part10.mp3'']
     = [''in/Part09.mp3'', ''in/Part9-1.mp3'']"
    unfolding m by simp
  then show ?thesis using a by blast
qed

subsection \<open>Claim C2\<close>

lemma last_parts_canvas:
  assumes "isCanvas r"
  shows "parts r ! (length (parts r) - 1) = CHR ''_'' # lastPart r"
  using assms parts0_nonempty [of r] by (simp add: parts_def)

lemma replace_canvas_run_marked:
  "replace_canvas_run (CHR ''_'' # s) = dropWhile in_canvas_class s"
  by (simp add: replace_canvas_run_def in_canvas_class_def)

lemma canvasIndex_canvas:
  assumes "isCanvas r"
  shows "canvasIndex r = parseInt (dropWhile in_canvas_class (lastPart r))"
  unfolding canvasIndex_def last_parts_canvas [OF assms] replace_canvas_run_marked ..

lemma file_matches_NaN: "\<not> file_matches a None f"
  by (simp add: file_matches_def Let_def strict_eq_def split: option.splits)

lemma processRecord_copied_general:
  "copied_files (snd (processRecord h r out inp fmo)) =
     (case fmo of
        Some fm \<Rightarrow> if truthy_str inp \<and> isCanvas r then matchingFiles r fm else []
      | None \<Rightarrow> [])"
  by (simp add: processRecord_def Let_def split_beta copied_files_append copy_matching_copied
      nesting_warnings_def split: option.splits)

text \<open>
  C2, as stated, fails: for the terminal segment \<^verbatim>\<open>canvas-12\<close> the digits of the
  segment form 12, and the index the program computes is \<open>- 12\<close>, since only the first
  run of characters out of \<^verbatim>\<open>_ c a n v s\<close> is removed and \<^verbatim>\<open>parseInt\<close> reads the sign.
\<close>

theorem C2_counterexample:
  "isCanvas (plain_row ''manifest1/canvas-12'')
   \<and> canvasIndex (plain_row ''manifest1/canvas-12'') = Some (- 12)
   \<and> spec_canvas_index (lastPart (plain_row ''manifest1/canvas-12'')) = Some 12"
  by code_simp

text \<open>
  C2, amended. For a canvas row the index is \<^verbatim>\<open>parseInt\<close> of the terminal segment
  without its leading run of characters out of \<^verbatim>\<open>_ c a n v s\<close> (leading white space,
  the no-break space included, is skipped by \<^verbatim>\<open>parseInt\<close>). When the terminal segment
  is \<^verbatim>\<open>canvas\<close> followed by decimal digits only, which form an integer below \<open>2 ^ 53\<close>,
  the index is the integer these digits form. When the terminal segment has no digit,
  the index is undefined, no file matches and no file is copied.
\<close>

theorem C2_canvas_index:
  "(isCanvas r \<longrightarrow> canvasIndex r = parseInt (dropWhile in_canvas_class (lastPart r)))
   \<and> (lastPart r = ''canvas'' @ ds \<and> ds \<noteq> [] \<and> list_all is_digit ds
        \<and> dec_value ds < 2 ^ 53
        \<longrightarrow> canvasIndex r = Some (dec_value ds))
   \<and> (isCanvas r \<and> filter is_digit (lastPart r) = []
        \<longrightarrow> canvasIndex r = None \<and> matchingFiles r fm = []
            \<and> copied_files (snd (processRecord h r out inp fmo)) = [])
   \<and> canvasIndex (plain_row (''manifest1/canvas'' @ [CHR 0xA0] @ ''7'')) = Some 7"
proof -
  have p1: "canvasIndex r = parseInt (dropWhile in_canvas_class (lastPart r))" if "isCanvas r"
    using that by (rule canvasIndex_canvas)
  have p2: "canvasIndex r = Some (dec_value ds)"
    if a: "lastPart r = ''canvas'' @ ds \<and> ds \<noteq> [] \<and> list_all is_digit ds
        \<and> dec_value ds < 2 ^ 53"
  proof -
    have c: "isCanvas r" using a by (simp add: isCanvas_def startsWith_def)
    obtain d ds' where ds: "ds = d # ds'" using a by (cases ds) auto
    have "is_digit d" using a ds by simp
    then have "\<not> in_canvas_class d" by (auto simp: in_canvas_class_def is_digit_def)
    then have "dropWhile in_canvas_class (''canvas'' @ ds) = ds"
      unfolding ds by (simp add: in_canvas_class_def)
    then show ?thesis
      using a canvasIndex_canvas [OF c] parseInt_digits [of ds] by simp
  qed
  have p3: "canvasIndex r = None \<and> matchingFiles r fm = []
            \<and> copied_files (snd (processRecord h r out inp fmo)) = []"
    if a: "isCanvas r \<and> filter is_digit (lastPart r) = []"
  proof -
    have "\<forall>c \<in> set (dropWhile in_canvas_class (lastPart r)). \<not> is_digit c"
      using a by (auto simp: filter_empty_conv dest: set_dropWhileD)
    then have n: "canvasIndex r = None"
      using a canvasIndex_canvas parseInt_no_digit by simp
    have m: "\<And>fm. matchingFiles r fm = []"
      unfolding matchingFiles_def n by (simp add: file_matches_NaN)
    have "copied_files (snd (processRecord h r out inp fmo)) = []"
      unfolding processRecord_copied_general using m by (simp split: option.splits)
    then show ?thesis using n m by simp
  qed
  have p4: "canvasIndex (plain_row (''manifest1/canvas'' @ [CHR 0xA0] @ ''7'')) = Some 7"
    by code_simp
  show ?thesis using p1 p2 p3 p4 by blast
qed

theorem C2_witness:
  "isCanvas (plain_row ''manifest1/canvas12'')
   \<and> lastPart (plain_row ''manifest1/canvas12'') = ''canvas'' @ ''12''
   \<and> ''12'' \<noteq> [] \<and> list_all is_digit ''12'' \<and> dec_value ''12'' < 2 ^ 53
   \<and> canvasIndex (plain_row ''manifest1/canvas12'') = Some 12
   \<and> isCanvas (plain_row ''manifest1/canvas_cover'')
   \<and> filter is_digit (lastPart (plain_row ''manifest1/canvas_cover'')) = []
   \<and> canvasIndex (plain_row ''manifest1/canvas_cover'') = None
   \<and> copied_files (snd (processRecord (fixed_host None None) (plain_row ''manifest1/canvas_cover'')
         ''out'' (Some ''in'') (Some [(''in'', [''in/x_1.jpg''])]))) = []"
proof -
  have a: "isCanvas (plain_row ''manifest1/canvas12'')
     \<and> lastPart (plain_row ''manifest1/canvas12'') = ''canvas'' @ ''12''
     \<and> ''12'' \<noteq> [] \<and> list_all is_digit ''12'' \<and> dec_value ''12'' < 2 ^ 53"
    by code_simp
  have dv: "dec_value ''12'' = 12" by code_simp
  have b: "isCanvas (plain_row ''manifest1/canvas_cover'')
     \<and> filter is_digit (lastPart (plain_row ''manifest1/canvas_cover'')) = []"
    by code_simp
  have "canvasIndex (plain_row ''manifest1/canvas12'') = Some (dec_value ''12'')"
    using a C2_canvas_index [of "plain_row ''manifest1/canvas12''" "''12''"] by blast
  then have c1: "canvasIndex (plain_row ''manifest1/canvas12'') = Some 12"
    unfolding dv .
  have c2: "canvasIndex (plain_row ''manifest1/canvas_cover'') = None
     \<and> copied_files (snd (processRecord (fixed_host None None) (plain_row ''manifest1/canvas_cover'')
         ''out'' (Some ''in'') (Some [(''in'', [''in/x_1.jpg''])]))) = []"
    using b C2_canvas_index [of "plain_row ''manifest1/canvas_cover''" _ _ "fixed_host None None"
        "''out''" "Some ''in''" "Some [(''in'', [''in/x_1.jpg''])]"]
    by blast
  show ?thesis using a b c1 c2 by blast
qed

subsection \<open>Claim C1\<close>

lemma addFileMetadata_kept:
  "(truthy (width r) \<longrightarrow> width (fst (addFileMetadata h f r)) = width r)
   \<and> (truthy (height r) \<longrightarrow> height (fst (addFileMetadata h f r)) = height r)
   \<and> (truthy (duration r) \<longrightarrow> duration (fst (addFileMetadata h f r)) = duration r)"
  by (simp add: addFileMetadata_def Let_def split: option.splits list.splits)

lemma copy_matching_kept:
  "(truthy (width r) \<longrightarrow> width (fst (copy_matching h p fs r)) = width r)
   \<and> (truthy (height r) \<longrightarrow> height (fst (copy_matching h p fs r)) = height r)
   \<and> (truthy (duration r) \<longrightarrow> duration (fst (copy_matching h p fs r)) = duration r)"
proof (induction fs arbitrary: r)
  case Nil
  then show ?case by simp
next
  case (Cons f fs)
  show ?case
    using Cons [of "fst (addFileMetadata h f r)"] addFileMetadata_kept [of r h f]
    by (simp add: Let_def split_beta)
qed

lemma copy_matching_append:
  "fst (copy_matching h p (xs @ ys) r) = fst (copy_matching h p ys (fst (copy_matching h p xs r)))"
  by (induction xs arbitrary: r) (simp_all add: Let_def split_beta)

lemma processRecord_row:
  "truthy_str inp \<Longrightarrow> isCanvas r \<Longrightarrow>
   fst (processRecord h r out inp (Some fm))
     = fst (copy_matching h (fullPath out r) (matchingFiles r fm) r)"
  by (simp add: processRecord_def Let_def split_beta)

lemma processRecord_row_kept:
  "(truthy (width r) \<longrightarrow> width (fst (processRecord h r out inp fmo)) = width r)
   \<and> (truthy (height r) \<longrightarrow> height (fst (processRecord h r out inp fmo)) = height r)
   \<and> (truthy (duration r) \<longrightarrow> duration (fst (processRecord h r out inp fmo)) = duration r)"
proof (cases fmo)
  case None
  then show ?thesis by (simp add: processRecord_def Let_def split_beta)
next
  case (Some fm)
  show ?thesis
    using copy_matching_kept [of r h "fullPath out r" "matchingFiles r fm"]
    unfolding Some by (simp add: processRecord_def Let_def split_beta)
qed

lemma file_matches_image_ext:
  "file_matches False idx f \<Longrightarrow> toLowerCase (extname f) \<in> set image_exts"
  by (auto simp: file_matches_def Let_def image_exts_def split: if_splits)

lemma file_matches_audio_ext:
  "file_matches True idx f \<Longrightarrow>
     toLowerCase (extname f) \<notin> set image_exts \<and> toLowerCase (extname f) \<in> set media_exts"
  by (auto simp: file_matches_def Let_def image_exts_def media_exts_def split: if_splits)

lemma addFileMetadata_image:
  assumes "toLowerCase (extname f) \<in> set image_exts" and "sharp h f = Some m"
  shows "(\<not> truthy (width r) \<longrightarrow> width (fst (addFileMetadata h f r)) = of_probe (meta_width m))
       \<and> (\<not> truthy (height r) \<longrightarrow> height (fst (addFileMetadata h f r)) = of_probe (meta_height m))"
  using assms by (simp add: addFileMetadata_def Let_def)

lemma addFileMetadata_media:
  assumes "toLowerCase (extname f) \<notin> set image_exts"
    and "toLowerCase (extname f) \<in> set media_exts" and "ffprobe h f = Some (d # ds)"
    and "\<not> truthy (duration r)"
  shows "duration (fst (addFileMetadata h f r)) = Num d"
  using assms by (simp add: addFileMetadata_def Let_def)

lemma createInfoYml_technical:
  "info_get (createInfoYml h r) ''width''
     = (if truthy (width r) then Some (YInt (parseInt (toString h (width r)))) else None)
   \<and> info_get (createInfoYml h r) ''height''
     = (if truthy (height r) then Some (YInt (parseInt (toString h (height r)))) else None)
   \<and> info_get (createInfoYml h r) ''duration''
     = (if truthy (duration r)
        then Some (YNum (parseFloat h (toString h (duration r)))) else None)"
  by (simp add: createInfoYml_def Let_def info_get_set_if info_get_Nil)


lemma digit_char:
  "n < 10 \<Longrightarrow> is_digit (char_of (48 + n)) \<and> digit_val (char_of (48 + n)) = int n"
  by (simp add: is_digit_def digit_val_def)

lemma dec_value_snoc: "dec_value (ds @ [c]) = 10 * dec_value ds + digit_val c"
  by (simp add: dec_value_def)

declare digits_of.simps [simp del]

lemma digits_of_ok:
  "digits_of n \<noteq> [] \<and> list_all is_digit (digits_of n) \<and> dec_value (digits_of n) = int n"
proof (induction n rule: digits_of.induct)
  case (1 n)
  show ?case
  proof (cases "n < 10")
    case True
    then show ?thesis
      using digit_char [of n] by (subst (1 2 3) digits_of.simps) (simp add: dec_value_def)
  next
    case False
    have m: "n mod 10 < 10" by simp
    have "int (10 * (n div 10) + n mod 10) = int n" by simp
    then have d: "10 * int (n div 10) + int (n mod 10) = int n"
      by (simp only: of_nat_add of_nat_mult of_nat_numeral)
    show ?thesis
      using False 1 digit_char [OF m] d
      by (subst (1 2 3) digits_of.simps) (simp add: dec_value_snoc)
  qed
qed

lemma parseInt_int_text: "0 \<le> k \<Longrightarrow> parseInt (int_text k) = Some k"
  using digits_of_ok [of "nat k"] parseInt_digits [of "digits_of (nat k)"]
  by (simp add: int_text_def)

lemma num_text_int:
  assumes "0 \<le> k" and "k < 10 ^ 21"
  shows "num_text h (Fin (of_int k)) = int_text k"
proof -
  have "\<bar>rat_of_int k\<bar> < 10 ^ 21"
    using assms by simp
  then show ?thesis by (simp add: num_text_def)
qed


lemma row_after_file:
  assumes "truthy_str inp" and "isCanvas r" and "matchingFiles r fm = pre @ f # post"
  shows "fst (processRecord h r out inp (Some fm))
           = fst (copy_matching h (fullPath out r) post
                   (fst (addFileMetadata h f (fst (copy_matching h (fullPath out r) pre r)))))"
  unfolding processRecord_row [OF assms(1,2)] assms(3) copy_matching_append
  by (simp add: Let_def split_beta)

lemma matched_file_kind:
  assumes "matchingFiles r fm = pre @ f # post"
  shows "file_matches (isAudio r) (canvasIndex r) f"
proof -
  have "f \<in> set (matchingFiles r fm)" unfolding assms by simp
  then show ?thesis unfolding matchingFiles_def by simp
qed

lemma doc_width:
  assumes "width r = Num (Fin (of_int k))" and "0 < k" and "k < 10 ^ 21"
  shows "info_get (createInfoYml h r) ''width'' = Some (YInt (Some k))"
proof -
  have "parseInt (num_text h (Fin (of_int k))) = Some k"
    using assms(2,3) by (simp add: num_text_int parseInt_int_text)
  then show ?thesis
    using assms(1,2) createInfoYml_technical [of h r] by simp
qed

lemma doc_height:
  assumes "height r = Num (Fin (of_int k))" and "0 < k" and "k < 10 ^ 21"
  shows "info_get (createInfoYml h r) ''height'' = Some (YInt (Some k))"
proof -
  have "parseInt (num_text h (Fin (of_int k))) = Some k"
    using assms(2,3) by (simp add: num_text_int parseInt_int_text)
  then show ?thesis
    using assms(1,2) createInfoYml_technical [of h r] by simp
qed

lemma doc_duration:
  assumes "duration r = Num d" and "truthy (Num d)" and "parseFloat h (num_text h d) = d"
  shows "info_get (createInfoYml h r) ''duration'' = Some (YNum d)"
  using assms createInfoYml_technical [of h r] by simp

lemma extracted_width:
  assumes "truthy_str inp" and "isCanvas r" and "matchingFiles r fm = pre @ f # post"
    and "\<not> isAudio r" and "sharp h f = Some m"
    and "\<not> truthy (width (fst (copy_matching h (fullPath out r) pre r)))"
    and "meta_width m = Some (Fin (of_int k))" and "0 < k"
  shows "width (fst (processRecord h r out inp (Some fm))) = Num (Fin (of_int k))"
proof -
  define r1 where "r1 = fst (copy_matching h (fullPath out r) pre r)"
  define r2 where "r2 = fst (addFileMetadata h f r1)"
  have "file_matches False (canvasIndex r) f"
    using matched_file_kind [OF assms(3)] assms(4) by simp
  then have "toLowerCase (extname f) \<in> set image_exts" by (rule file_matches_image_ext)
  then have "width r2 = of_probe (meta_width m)"
    using addFileMetadata_image [OF _ assms(5), of r1] assms(6) unfolding r1_def r2_def by simp
  then have w: "width r2 = Num (Fin (of_int k))" unfolding assms(7) by (simp add: of_probe_def)
  then have "truthy (width r2)" using assms(8) by simp
  then have "width (fst (copy_matching h (fullPath out r) post r2)) = width r2"
    using copy_matching_kept by blast
  then show ?thesis
    unfolding row_after_file [OF assms(1,2,3)] r2_def r1_def using w unfolding r2_def r1_def by simp
qed

lemma extracted_height:
  assumes "truthy_str inp" and "isCanvas r" and "matchingFiles r fm = pre @ f # post"
    and "\<not> isAudio r" and "sharp h f = Some m"
    and "\<not> truthy (height (fst (copy_matching h (fullPath out r) pre r)))"
    and "meta_height m = Some (Fin (of_int k))" and "0 < k"
  shows "height (fst (processRecord h r out inp (Some fm))) = Num (Fin (of_int k))"
proof -
  define r1 where "r1 = fst (copy_matching h (fullPath out r) pre r)"
  define r2 where "r2 = fst (addFileMetadata h f r1)"
  have "file_matches False (canvasIndex r) f"
    using matched_file_kind [OF assms(3)] assms(4) by simp
  then have "toLowerCase (extname f) \<in> set image_exts" by (rule file_matches_image_ext)
  then have "height r2 = of_probe (meta_height m)"
    using addFileMetadata_image [OF _ assms(5), of r1] assms(6) unfolding r1_def r2_def by simp
  then have w: "height r2 = Num (Fin (of_int k))" unfolding assms(7) by (simp add: of_probe_def)
  then have "truthy (height r2)" using assms(8) by simp
  then have "height (fst (copy_matching h (fullPath out r) post r2)) = height r2"
    using copy_matching_kept by blast
  then show ?thesis
    unfolding row_after_file [OF assms(1,2,3)] r2_def r1_def using w unfolding r2_def r1_def by simp
qed

lemma extracted_duration:
  assumes "truthy_str inp" and "isCanvas r" and "matchingFiles r fm = pre @ f # post"
    and "isAudio r" and "ffprobe h f = Some (d # ds)"
    and "\<not> truthy (duration (fst (copy_matching h (fullPath out r) pre r)))"
    and "truthy (Num d)"
  shows "duration (fst (processRecord h r out inp (Some fm))) = Num d"
proof -
  define r1 where "r1 = fst (copy_matching h (fullPath out r) pre r)"
  define r2 where "r2 = fst (addFileMetadata h f r1)"
  have "file_matches True (canvasIndex r) f"
    using matched_file_kind [OF assms(3)] assms(4) by simp
  then have "toLowerCase (extname f) \<notin> set image_exts \<and> toLowerCase (extname f) \<in> set media_exts"
    by (rule file_matches_audio_ext)
  then have w: "duration r2 = Num d"
    using addFileMetadata_media [OF _ _ assms(5), of r1] assms(6) unfolding r1_def r2_def by simp
  then have "truthy (duration r2)" using assms(7) by simp
  then have "duration (fst (copy_matching h (fullPath out r) post r2)) = duration r2"
    using copy_matching_kept by blast
  then show ?thesis
    unfolding row_after_file [OF assms(1,2,3)] r2_def r1_def using w unfolding r2_def r1_def by simp
qed


text \<open>
  C1, as stated, fails in its second half: for a row with no duration and the matched
  file \<^verbatim>\<open>Part01.mp3\<close>, a media probe that succeeds with a duration of zero leaves the
  number 0 on the row, and the document written for the row has no duration entry,
  since \<^verbatim>\<open>createInfoYml\<close> emits a technical field only when it is truthy.
\<close>

theorem C1_counterexample:
  "\<not> truthy (duration (plain_row ''audio/canvas1''))
   \<and> copied_files (snd (processRecord (fixed_host None (Some [Fin 0])) (plain_row ''audio/canvas1'')
         ''out'' (Some ''in'') (Some [(''in'', [''in/Part01.mp3''])]))) = [''in/Part01.mp3'']
   \<and> ffprobe (fixed_host None (Some [Fin 0])) ''in/Part01.mp3'' = Some [Fin 0]
   \<and> duration (fst (processRecord (fixed_host None (Some [Fin 0])) (plain_row ''audio/canvas1'')
         ''out'' (Some ''in'') (Some [(''in'', [''in/Part01.mp3''])]))) = Num (Fin 0)
   \<and> written_files (snd (processRecord (fixed_host None (Some [Fin 0]))
         (plain_row ''audio/canvas1'') ''out'' (Some ''in'') (Some [(''in'', [''in/Part01.mp3''])])))
       = [([''out'', ''audio'', ''_canvas1'', ''info.yml''],
           createInfoYml (fixed_host None (Some [Fin 0]))
             (fst (processRecord (fixed_host None (Some [Fin 0])) (plain_row ''audio/canvas1'')
                ''out'' (Some ''in'') (Some [(''in'', [''in/Part01.mp3''])]))))]
   \<and> info_get (createInfoYml (fixed_host None (Some [Fin 0]))
         (fst (processRecord (fixed_host None (Some [Fin 0])) (plain_row ''audio/canvas1'')
            ''out'' (Some ''in'') (Some [(''in'', [''in/Part01.mp3''])])))) ''duration'' = None"
  by code_simp

text \<open>
  C1, amended. A width, height or duration that is set (truthy, as every non-empty
  text is) is left unchanged by \<^verbatim>\<open>addFileMetadata\<close> for every file, and by the
  processing of the whole row. When a matched file of a canvas row is reached with
  the field still unset, and its probe succeeds with a non-zero number (not
  \<^verbatim>\<open>NaN\<close>), the row holds that number after processing and the sidecar document
  contains it: for width and height (an image canvas) a positive integer below
  \<open>10 ^ 21\<close> is written as that integer, and for duration (an audio canvas) the number
  is written provided \<^verbatim>\<open>parseFloat\<close> reads the number's text back as the number.
\<close>

theorem C1_extraction_precedence:
  "(truthy (width row) \<longrightarrow>
      width (fst (addFileMetadata h file0 row)) = width row
      \<and> width (fst (processRecord h row out inp fmo)) = width row)
   \<and> (truthy (height row) \<longrightarrow>
      height (fst (addFileMetadata h file0 row)) = height row
      \<and> height (fst (processRecord h row out inp fmo)) = height row)
   \<and> (truthy (duration row) \<longrightarrow>
      duration (fst (addFileMetadata h file0 row)) = duration row
      \<and> duration (fst (processRecord h row out inp fmo)) = duration row)
   \<and> (s \<noteq> [] \<longrightarrow> truthy (Str s))
   \<and> (truthy_str inp \<and> isCanvas r \<and> matchingFiles r fm = pre @ f # post
        \<and> \<not> isAudio r \<and> sharp h f = Some m
        \<and> \<not> truthy (width (fst (copy_matching h (fullPath out r) pre r)))
        \<and> meta_width m = Some (Fin (of_int k)) \<and> 0 < k \<and> k < 10 ^ 21
      \<longrightarrow> width (fst (processRecord h r out inp (Some fm))) = Num (Fin (of_int k))
          \<and> (\<exists>doc. written_files (snd (processRecord h r out inp (Some fm)))
                       = [(fullPath out r @ [''info.yml''], doc)]
                  \<and> info_get doc ''width'' = Some (YInt (Some k))))
   \<and> (truthy_str inp \<and> isCanvas r \<and> matchingFiles r fm = pre @ f # post
        \<and> \<not> isAudio r \<and> sharp h f = Some m
        \<and> \<not> truthy (height (fst (copy_matching h (fullPath out r) pre r)))
        \<and> meta_height m = Some (Fin (of_int k)) \<and> 0 < k \<and> k < 10 ^ 21
      \<longrightarrow> height (fst (processRecord h r out inp (Some fm))) = Num (Fin (of_int k))
          \<and> (\<exists>doc. written_files (snd (processRecord h r out inp (Some fm)))
                       = [(fullPath out r @ [''info.yml''], doc)]
                  \<and> info_get doc ''height'' = Some (YInt (Some k))))
   \<and> (truthy_str inp \<and> isCanvas r \<and> matchingFiles r fm = pre @ f # post
        \<and> isAudio r \<and> ffprobe h f = Some (d # ds)
        \<and> \<not> truthy (duration (fst (copy_matching h (fullPath out r) pre r)))
        \<and> truthy (Num d) \<and> parseFloat h (num_text h d) = d
      \<longrightarrow> duration (fst (processRecord h r out inp (Some fm))) = Num d
          \<and> (\<exists>doc. written_files (snd (processRecord h r out inp (Some fm)))
                       = [(fullPath out r @ [''info.yml''], doc)]
                  \<and> info_get doc ''duration'' = Some (YNum d)))"
proof -
  have kept: "(truthy (width row) \<longrightarrow>
      width (fst (addFileMetadata h file0 row)) = width row
      \<and> width (fst (processRecord h row out inp fmo)) = width row)
   \<and> (truthy (height row) \<longrightarrow>
      height (fst (addFileMetadata h file0 row)) = height row
      \<and> height (fst (processRecord h row out inp fmo)) = height row)
   \<and> (truthy (duration row) \<longrightarrow>
      duration (fst (addFileMetadata h file0 row)) = duration row
      \<and> duration (fst (processRecord h row out inp fmo)) = duration row)"
    using addFileMetadata_kept [of row h file0] processRecord_row_kept [of row h out inp fmo]
    by blast
  have str: "s \<noteq> [] \<longrightarrow> truthy (Str s)" by simp
  have w: "width (fst (processRecord h r out inp (Some fm))) = Num (Fin (of_int k))
          \<and> (\<exists>doc. written_files (snd (processRecord h r out inp (Some fm)))
                       = [(fullPath out r @ [''info.yml''], doc)]
                  \<and> info_get doc ''width'' = Some (YInt (Some k)))"
    if a: "truthy_str inp \<and> isCanvas r \<and> matchingFiles r fm = pre @ f # post
        \<and> \<not> isAudio r \<and> sharp h f = Some m
        \<and> \<not> truthy (width (fst (copy_matching h (fullPath out r) pre r)))
        \<and> meta_width m = Some (Fin (of_int k)) \<and> 0 < k \<and> k < 10 ^ 21"
  proof -
    have x: "width (fst (processRecord h r out inp (Some fm))) = Num (Fin (of_int k))"
      using a extracted_width [of inp r fm pre f post h m out k] by blast
    have "info_get (createInfoYml h (fst (processRecord h r out inp (Some fm)))) ''width''
            = Some (YInt (Some k))"
      using a by (intro doc_width [OF x]) simp_all
    then show ?thesis using x processRecord_written_files [of h r out inp "Some fm"] by blast
  qed
  have hh: "height (fst (processRecord h r out inp (Some fm))) = Num (Fin (of_int k))
          \<and> (\<exists>doc. written_files (snd (processRecord h r out inp (Some fm)))
                       = [(fullPath out r @ [''info.yml''], doc)]
                  \<and> info_get doc ''height'' = Some (YInt (Some k)))"
    if a: "truthy_str inp \<and> isCanvas r \<and> matchingFiles r fm = pre @ f # post
        \<and> \<not> isAudio r \<and> sharp h f = Some m
        \<and> \<not> truthy (height (fst (copy_matching h (fullPath out r) pre r)))
        \<and> meta_height m = Some (Fin (of_int k)) \<and> 0 < k \<and> k < 10 ^ 21"
  proof -
    have x: "height (fst (processRecord h r out inp (Some fm))) = Num (Fin (of_int k))"
      using a extracted_height [of inp r fm pre f post h m out k] by blast
    have "info_get (createInfoYml h (fst (processRecord h r out inp (Some fm)))) ''height''
            = Some (YInt (Some k))"
      using a by (intro doc_height [OF x]) simp_all
    then show ?thesis using x processRecord_written_files [of h r out inp "Some fm"] by blast
  qed
  have dd: "duration (fst (processRecord h r out inp (Some fm))) = Num d
          \<and> (\<exists>doc. written_files (snd (processRecord h r out inp (Some fm)))
                       = [(fullPath out r @ [''info.yml''], doc)]
                  \<and> info_get doc ''duration'' = Some (YNum d))"
    if a: "truthy_str inp \<and> isCanvas r \<and> matchingFiles r fm = pre @ f # post
        \<and> isAudio r \<and> ffprobe h f = Some (d # ds)
        \<and> \<not> truthy (duration (fst (copy_matching h (fullPath out r) pre r)))
        \<and> truthy (Num d) \<and> parseFloat h (num_text h d) = d"
  proof -
    have x: "duration (fst (processRecord h r out inp (Some fm))) = Num d"
      using a extracted_duration [of inp r fm pre f post h d ds out] by blast
    have "info_get (createInfoYml h (fst (processRecord h r out inp (Some fm)))) ''duration''
            = Some (YNum d)"
      using a by (intro doc_duration [OF x]) simp_all
    then show ?thesis using x processRecord_written_files [of h r out inp "Some fm"] by blast
  qed
  show ?thesis using kept str w hh dd by blast
qed


theorem C1_witness:
  "truthy (width ((plain_row ''manifest1/canvas1'')\<lparr>width := Str ''100''\<rparr>))
   \<and> width (fst (processRecord probing_host ((plain_row ''manifest1/canvas1'')\<lparr>width := Str ''100''\<rparr>)
         ''out'' (Some ''in'') (Some [(''in'', [''in/x_01.jpg''])]))) = Str ''100''
   \<and> matchingFiles (plain_row ''manifest1/canvas1'') [(''in'', [''in/x_01.jpg''])] = [''in/x_01.jpg'']
   \<and> \<not> truthy (width (plain_row ''manifest1/canvas1''))
   \<and> width (fst (processRecord probing_host (plain_row ''manifest1/canvas1'')
         ''out'' (Some ''in'') (Some [(''in'', [''in/x_01.jpg''])]))) = Num (Fin 640)
   \<and> (\<exists>doc. written_files (snd (processRecord probing_host (plain_row ''manifest1/canvas1'')
                 ''out'' (Some ''in'') (Some [(''in'', [''in/x_01.jpg''])])))
               = [([''out'', ''manifest1'', ''_canvas1'', ''info.yml''], doc)]
            \<and> info_get doc ''width'' = Some (YInt (Some 640)))
   \<and> height (fst (processRecord probing_host (plain_row ''manifest1/canvas1'')
         ''out'' (Some ''in'') (Some [(''in'', [''in/x_01.jpg''])]))) = Num (Fin 480)
   \<and> matchingFiles (plain_row ''audio/canvas9'') [(''in'', [''in/Part09.mp3'', ''in/Part9-1.mp3''])]
       = [''in/Part09.mp3'', ''in/Part9-1.mp3'']
   \<and> duration (fst (processRecord probing_host (plain_row ''audio/canvas9'')
         ''out'' (Some ''in'') (Some [(''in'', [''in/Part09.mp3'', ''in/Part9-1.mp3''])]))) = Num (Fin (25 / 2))
   \<and> (\<exists>doc. written_files (snd (processRecord probing_host (plain_row ''audio/canvas9'')
                 ''out'' (Some ''in'') (Some [(''in'', [''in/Part09.mp3'', ''in/Part9-1.mp3''])])))
               = [([''out'', ''audio'', ''_canvas9'', ''info.yml''], doc)]
            \<and> info_get doc ''duration'' = Some (YNum (Fin (25 / 2))))"
proof -
  let ?ri = "plain_row ''manifest1/canvas1''"
  let ?fi = "[(''in'', [''in/x_01.jpg''])]"
  let ?ra = "plain_row ''audio/canvas9''"
  let ?fa = "[(''in'', [''in/Part09.mp3'', ''in/Part9-1.mp3''])]"
  let ?m = "\<lparr>meta_width = Some (Fin 640), meta_height = Some (Fin 480)\<rparr>"
  have k1: "truthy (width (?ri\<lparr>width := Str ''100''\<rparr>))
            \<and> width (?ri\<lparr>width := Str ''100''\<rparr>) = Str ''100''"
    by (simp add: plain_row_def)
  have mi: "matchingFiles ?ri ?fi = [''in/x_01.jpg'']" by code_simp
  have ma: "matchingFiles ?ra ?fa = [''in/Part09.mp3'', ''in/Part9-1.mp3'']" by code_simp
  have pi: "fullPath ''out'' ?ri = [''out'', ''manifest1'', ''_canvas1'']" by code_simp
  have pa: "fullPath ''out'' ?ra = [''out'', ''audio'', ''_canvas9'']" by code_simp
  have hi: "truthy_str (Some ''in'') \<and> isCanvas ?ri \<and> \<not> isAudio ?ri
            \<and> sharp probing_host ''in/x_01.jpg'' = Some ?m
            \<and> \<not> truthy (width (fst (copy_matching probing_host (fullPath ''out'' ?ri) [] ?ri)))
            \<and> \<not> truthy (height (fst (copy_matching probing_host (fullPath ''out'' ?ri) [] ?ri)))
            \<and> \<not> truthy (width ?ri)"
    by code_simp
  have mw: "meta_width ?m = Some (Fin (of_int 640)) \<and> meta_height ?m = Some (Fin (of_int 480))"
    by simp
  have ha: "isCanvas ?ra \<and> isAudio ?ra
            \<and> ffprobe probing_host ''in/Part09.mp3'' = Some (Fin (25 / 2) # [])
            \<and> \<not> truthy (duration (fst (copy_matching probing_host (fullPath ''out'' ?ra) [] ?ra)))
            \<and> truthy (Num (Fin (25 / 2)))
            \<and> parseFloat probing_host (num_text probing_host (Fin (25 / 2))) = Fin (25 / 2)"
    by code_simp
  have c0: "width (fst (processRecord probing_host (?ri\<lparr>width := Str ''100''\<rparr>)
         ''out'' (Some ''in'') (Some ?fi))) = Str ''100''"
    using k1 C1_extraction_precedence [of "?ri\<lparr>width := Str ''100''\<rparr>" probing_host
        "''in/x_01.jpg''" "''out''" "Some ''in''" "Some ?fi"]
    by simp
  have c1: "width (fst (processRecord probing_host ?ri ''out'' (Some ''in'') (Some ?fi))) = Num (Fin (of_int 640))
     \<and> (\<exists>doc. written_files (snd (processRecord probing_host ?ri ''out'' (Some ''in'') (Some ?fi)))
                 = [(fullPath ''out'' ?ri @ [''info.yml''], doc)]
            \<and> info_get doc ''width'' = Some (YInt (Some 640)))"
    using hi mw mi
      C1_extraction_precedence [of _ probing_host _ "''out''" "Some ''in''" _ _ ?ri ?fi "[]"
        "''in/x_01.jpg''" "[]" ?m 640]
    by simp
  have c2: "height (fst (processRecord probing_host ?ri ''out'' (Some ''in'') (Some ?fi))) = Num (Fin (of_int 480))"
    using hi mw mi
      C1_extraction_precedence [of _ probing_host _ "''out''" "Some ''in''" _ _ ?ri ?fi "[]"
        "''in/x_01.jpg''" "[]" ?m 480]
    by simp
  have c3: "duration (fst (processRecord probing_host ?ra ''out'' (Some ''in'') (Some ?fa))) = Num (Fin (25 / 2))
     \<and> (\<exists>doc. written_files (snd (processRecord probing_host ?ra ''out'' (Some ''in'') (Some ?fa)))
                 = [(fullPath ''out'' ?ra @ [''info.yml''], doc)]
            \<and> info_get doc ''duration'' = Some (YNum (Fin (25 / 2))))"
    using ha hi ma
      C1_extraction_precedence [of _ probing_host _ "''out''" "Some ''in''" _ _ ?ra ?fa "[]"
        "''in/Part09.mp3''" "[''in/Part9-1.mp3'']" _ _ "Fin (25 / 2)" "[]"]
    by simp
  show ?thesis
    using k1 mi ma hi c0 c1 c2 c3 unfolding pi pa by simp
qed

end
